theory Spec2Isabelle
  imports Main "HOL-Library.Word"
begin

unbundle bit_operations_syntax

section \<open>The environment of minitel.c\<close>

text \<open>
  The program talks to a serial device, a source file, a log and the signal
  machinery of the operating system.  The model keeps the part of the
  operating system the program can observe in a record \<open>world\<close> together with
  the three globals of minitel.c, and it takes every answer the program cannot
  predict from an oracle \<open>env\<close>: the n-th call of a system call of one kind
  reads the n-th answer of that kind, and the world counts the calls.

  Modelling decisions, each of them visible in the definitions below:
  \<^item> plain \<open>char\<close> is a signed 8-bit integer (the x86-64 ABI of gcc), so the
    value \<open>fgetc\<close> returns is narrowed to 8 bits and read back signed;
  \<^item> \<open>int\<close> is 32 bits wide; the only counter that can leave this range is
    \<open>bytes_sent\<close>, whose increment wraps around;
  \<^item> a \<open>write\<close> transfers all of its bytes or fails;
  \<^item> time does not pass: the sleeps only leave an event behind, and the time
    stamp of a log line is left out;
  \<^item> a log line is a level and a message tag with the values formatted
    into it;
  \<^item> the contents of the termios structure are left out, so \<open>tcgetattr\<close> and
    \<open>tcsetattr\<close> only succeed or fail;
  \<^item> stdio streams are kept apart from the descriptor table: an open source
    file is the list of bytes not yet read;
  \<^item> fcntl and close succeed on an open descriptor and fail with EBADF on
    any other; F_SETFL changes the flags of \<open>SETFL_MASK\<close> and no others;
  \<^item> a signal handler runs at the next point where the program reads or
    writes one of the two flags; the handlers touch nothing but the flags
    and the log, so no other interleaving can be observed.
\<close>

type_synonym byte = "8 word"

datatype level = INFO | WARN | ERROR | FATAL

text \<open>The messages of minitel.c, in the order of their first use in the file.\<close>

datatype logmsg =
    SignalStop int              \<comment> \<open>line 79, with the signal number\<close>
  | SighupReconnect             \<comment> \<open>line 83\<close>
  | OpenError string int        \<comment> \<open>lines 143 and 221: the name and errno\<close>
  | TcgetattrFailed             \<comment> \<open>line 150\<close>
  | TcsetattrFailed             \<comment> \<open>line 164\<close>
  | PortOpened string           \<comment> \<open>line 173\<close>
  | ClearScreenError            \<comment> \<open>line 189\<close>
  | LinesError                  \<comment> \<open>line 196\<close>
  | ScreenInitialised           \<comment> \<open>line 200\<close>
  | NotConnected                \<comment> \<open>line 215\<close>
  | ConnectionLost              \<comment> \<open>line 230\<close>
  | CharWriteError              \<comment> \<open>line 242\<close>
  | NewlineError                \<comment> \<open>line 253\<close>
  | CarriageReturnError         \<comment> \<open>line 267\<close>
  | SkipLinesError              \<comment> \<open>line 274\<close>
  | FileSent int                \<comment> \<open>line 279, with bytes_sent\<close>
  | Startup                     \<comment> \<open>line 326\<close>
  | Settings string string int  \<comment> \<open>line 327: port, file, delay\<close>
  | TooManyRetries              \<comment> \<open>line 339\<close>
  | RetryWait int int int       \<comment> \<open>line 343: retry_count, MAX_RETRIES, RETRY_DELAY\<close>
  | WatchdogAlive               \<comment> \<open>line 368\<close>
  | SendError                   \<comment> \<open>line 374\<close>
  | OneShotStop                 \<comment> \<open>line 380\<close>
  | PortClosed                  \<comment> \<open>line 392\<close>
  | ReconnectWait               \<comment> \<open>line 396\<close>
  | Shutdown                    \<comment> \<open>line 401\<close>

text \<open>What the program does to its environment, one event per call.\<close>

datatype event =
    Open string int             \<comment> \<open>open(name, ...) returned the int\<close>
  | Close int                   \<comment> \<open>close(fd)\<close>
  | Getfl int int               \<comment> \<open>fcntl(fd, F_GETFL, 0) returned the second int\<close>
  | Setfl int int               \<comment> \<open>fcntl(fd, F_SETFL, arg)\<close>
  | Tcgetattr int int           \<comment> \<open>tcgetattr(fd, ...) returned the second int\<close>
  | Tcsetattr int int           \<comment> \<open>tcsetattr(fd, TCSANOW, ...) returned the second int\<close>
  | Write int "byte list" int   \<comment> \<open>write(fd, bytes, length bytes) returned the last int\<close>
  | Fopen string bool           \<comment> \<open>fopen(name, "r"); True when a stream came back\<close>
  | Fclose                      \<comment> \<open>fclose of the source stream\<close>
  | Usleep int
  | Sleep int
  | Log level logmsg            \<comment> \<open>log_message(level, message)\<close>

record world =
  keep_running :: int           \<comment> \<open>line 47\<close>
  reconnect_needed :: int       \<comment> \<open>line 48\<close>
  fd_global :: int              \<comment> \<open>line 49\<close>
  fds :: "int \<Rightarrow> int option"    \<comment> \<open>the open descriptors and their file status flags\<close>
  errno :: int
  trace :: "event list"         \<comment> \<open>the events so far, oldest first\<close>
  n_open :: nat
  n_tcget :: nat
  n_tcset :: nat
  n_write :: nat
  n_fopen :: nat
  n_poll :: nat
  n_time :: nat

record env =
  e_open :: "nat \<Rightarrow> int + int"         \<comment> \<open>open: Inl errno, or Inr the new descriptor\<close>
  e_tcget :: "nat \<Rightarrow> int option"       \<comment> \<open>tcgetattr: Some errno when it fails\<close>
  e_tcset :: "nat \<Rightarrow> int option"       \<comment> \<open>tcsetattr: Some errno when it fails\<close>
  e_write :: "nat \<Rightarrow> int option"       \<comment> \<open>write on an open descriptor: Some errno when it fails\<close>
  e_fopen :: "nat \<Rightarrow> int + byte list"  \<comment> \<open>fopen: Inl errno, or Inr the bytes of the file\<close>
  e_sigs :: "nat \<Rightarrow> int list"          \<comment> \<open>the signals that arrived since the last look at a flag\<close>
  e_time :: "nat \<Rightarrow> int"               \<comment> \<open>time(NULL)\<close>

subsection \<open>Constants\<close>

definition CHARS_PER_LINE :: int where "CHARS_PER_LINE = 80"
definition LINES_SKIP :: int where "LINES_SKIP = 70"
definition MAX_RETRIES :: int where "MAX_RETRIES = 5"
definition RETRY_DELAY :: int where "RETRY_DELAY = 5"
definition WATCHDOG_TIMEOUT :: int where "WATCHDOG_TIMEOUT = 60"

text \<open>
  The values of the system headers of Linux (asm-generic): minitel.c uses the
  names only.  \<open>SETFL_MASK\<close> are the flags F_SETFL can change, fcntl(2).
\<close>

definition EOF :: int where "EOF = - 1"
definition EBADF :: int where "EBADF = 9"
definition EMFILE :: int where "EMFILE = 24"
definition SIGHUP :: int where "SIGHUP = 1"
definition SIGINT :: int where "SIGINT = 2"
definition SIGTERM :: int where "SIGTERM = 15"
definition O_RDWR :: int where "O_RDWR = 2"
definition O_NOCTTY :: int where "O_NOCTTY = 256"
definition O_APPEND :: int where "O_APPEND = 1024"
definition O_NONBLOCK :: int where "O_NONBLOCK = 2048"
definition O_ASYNC :: int where "O_ASYNC = 8192"
definition O_DIRECT :: int where "O_DIRECT = 16384"
definition O_NOATIME :: int where "O_NOATIME = 262144"
definition SETFL_MASK :: int where
  "SETFL_MASK = O_APPEND OR O_ASYNC OR O_DIRECT OR O_NOATIME OR O_NONBLOCK"

subsection \<open>System calls\<close>

definition emit :: "event \<Rightarrow> world \<Rightarrow> world" where
  "emit e w = w\<lparr>trace := trace w @ [e]\<rparr>"

text \<open>
  open: the descriptor the oracle names is taken when it is free; the flags
  that stay with the descriptor are the access mode and the status flags
  (O_NOCTTY only acts during the call).
\<close>

definition sys_open :: "env \<Rightarrow> string \<Rightarrow> int \<Rightarrow> world \<Rightarrow> int \<times> world" where
  "sys_open env name flags w =
     (let w1 = w\<lparr>n_open := n_open w + 1\<rparr> in
      case e_open env (n_open w) of
        Inl e \<Rightarrow> (- 1, emit (Open name (- 1)) (w1\<lparr>errno := e\<rparr>))
      | Inr fd \<Rightarrow>
          if fd < 0 \<or> fds w fd \<noteq> None
          then (- 1, emit (Open name (- 1)) (w1\<lparr>errno := EMFILE\<rparr>))
          else (fd, emit (Open name fd)
                      (w1\<lparr>fds := (fds w)(fd \<mapsto> flags AND NOT O_NOCTTY)\<rparr>)))"

definition sys_close :: "int \<Rightarrow> world \<Rightarrow> int \<times> world" where
  "sys_close fd w =
     (case fds w fd of
        None \<Rightarrow> (- 1, emit (Close fd) (w\<lparr>errno := EBADF\<rparr>))
      | Some fl \<Rightarrow> (0, emit (Close fd) (w\<lparr>fds := (fds w)(fd := None)\<rparr>)))"

definition sys_getfl :: "int \<Rightarrow> world \<Rightarrow> int \<times> world" where
  "sys_getfl fd w =
     (case fds w fd of
        None \<Rightarrow> (- 1, emit (Getfl fd (- 1)) (w\<lparr>errno := EBADF\<rparr>))
      | Some fl \<Rightarrow> (fl, emit (Getfl fd fl) w))"

definition sys_setfl :: "int \<Rightarrow> int \<Rightarrow> world \<Rightarrow> int \<times> world" where
  "sys_setfl fd arg w =
     (case fds w fd of
        None \<Rightarrow> (- 1, emit (Setfl fd arg) (w\<lparr>errno := EBADF\<rparr>))
      | Some fl \<Rightarrow>
          (0, emit (Setfl fd arg)
                (w\<lparr>fds := (fds w)(fd \<mapsto> (fl AND NOT SETFL_MASK) OR (arg AND SETFL_MASK))\<rparr>)))"

definition sys_tcgetattr :: "env \<Rightarrow> int \<Rightarrow> world \<Rightarrow> int \<times> world" where
  "sys_tcgetattr env fd w =
     (let w1 = w\<lparr>n_tcget := n_tcget w + 1\<rparr> in
      case fds w fd of
        None \<Rightarrow> (- 1, emit (Tcgetattr fd (- 1)) (w1\<lparr>errno := EBADF\<rparr>))
      | Some fl \<Rightarrow>
          (case e_tcget env (n_tcget w) of
             Some e \<Rightarrow> (- 1, emit (Tcgetattr fd (- 1)) (w1\<lparr>errno := e\<rparr>))
           | None \<Rightarrow> (0, emit (Tcgetattr fd 0) w1)))"

definition sys_tcsetattr :: "env \<Rightarrow> int \<Rightarrow> world \<Rightarrow> int \<times> world" where
  "sys_tcsetattr env fd w =
     (let w1 = w\<lparr>n_tcset := n_tcset w + 1\<rparr> in
      case fds w fd of
        None \<Rightarrow> (- 1, emit (Tcsetattr fd (- 1)) (w1\<lparr>errno := EBADF\<rparr>))
      | Some fl \<Rightarrow>
          (case e_tcset env (n_tcset w) of
             Some e \<Rightarrow> (- 1, emit (Tcsetattr fd (- 1)) (w1\<lparr>errno := e\<rparr>))
           | None \<Rightarrow> (0, emit (Tcsetattr fd 0) w1)))"

text \<open>
  write: a descriptor that is not open gives EBADF; on an open one the oracle
  decides, and may itself answer EBADF (a descriptor not open for writing).
\<close>

definition sys_write :: "env \<Rightarrow> int \<Rightarrow> byte list \<Rightarrow> world \<Rightarrow> int \<times> world" where
  "sys_write env fd bs w =
     (let w1 = w\<lparr>n_write := n_write w + 1\<rparr> in
      case fds w fd of
        None \<Rightarrow> (- 1, emit (Write fd bs (- 1)) (w1\<lparr>errno := EBADF\<rparr>))
      | Some fl \<Rightarrow>
          (case e_write env (n_write w) of
             Some e \<Rightarrow> (- 1, emit (Write fd bs (- 1)) (w1\<lparr>errno := e\<rparr>))
           | None \<Rightarrow> (int (length bs), emit (Write fd bs (int (length bs))) w1)))"

definition sys_fopen :: "env \<Rightarrow> string \<Rightarrow> world \<Rightarrow> byte list option \<times> world" where
  "sys_fopen env name w =
     (let w1 = w\<lparr>n_fopen := n_fopen w + 1\<rparr> in
      case e_fopen env (n_fopen w) of
        Inl e \<Rightarrow> (None, emit (Fopen name False) (w1\<lparr>errno := e\<rparr>))
      | Inr bs \<Rightarrow> (Some bs, emit (Fopen name True) w1))"

definition sys_fclose :: "world \<Rightarrow> world" where
  "sys_fclose w = emit Fclose w"

text \<open>fgetc: the next byte as a value from 0 to 255, or EOF at the end, where the stream stays.\<close>

definition fgetc :: "byte list \<Rightarrow> int \<times> byte list" where
  "fgetc file = (case file of [] \<Rightarrow> (EOF, []) | b # bs \<Rightarrow> (uint b, bs))"

definition sys_usleep :: "int \<Rightarrow> world \<Rightarrow> world" where
  "sys_usleep us w = emit (Usleep us) w"

definition sys_sleep :: "int \<Rightarrow> world \<Rightarrow> world" where
  "sys_sleep s w = emit (Sleep s) w"

definition sys_time :: "env \<Rightarrow> world \<Rightarrow> int \<times> world" where
  "sys_time env w = (e_time env (n_time w), w\<lparr>n_time := n_time w + 1\<rparr>)"

section \<open>The functions of minitel.c\<close>

subsection \<open>log_message and signal_handler\<close>

definition log_message :: "level \<Rightarrow> logmsg \<Rightarrow> world \<Rightarrow> world" where
  "log_message lvl m w = emit (Log lvl m) w"

definition signal_handler :: "int \<Rightarrow> world \<Rightarrow> world" where
  "signal_handler signum w =
     (if signum = SIGINT \<or> signum = SIGTERM
      then (log_message INFO (SignalStop signum) w)\<lparr>keep_running := 0\<rparr>
      else if signum = SIGHUP
      then (log_message INFO SighupReconnect w)\<lparr>reconnect_needed := 1\<rparr>
      else w)"

text \<open>The handlers of the signals that arrived since the last look at a flag run now.\<close>

definition deliver :: "env \<Rightarrow> world \<Rightarrow> world" where
  "deliver env w =
     foldl (\<lambda>v s. signal_handler s v) (w\<lparr>n_poll := n_poll w + 1\<rparr>) (e_sigs env (n_poll w))"

subsection \<open>check_serial_connection (lines 110 to 131)\<close>

definition check_serial_connection :: "env \<Rightarrow> int \<Rightarrow> world \<Rightarrow> int \<times> world" where
  "check_serial_connection env fd w =
     (if fd < 0 then (0, w)
      else
        let (flags, w1) = sys_getfl fd w;
            (r1, w2) = sys_setfl fd (flags OR O_NONBLOCK) w1;
            (result, w3) = sys_write env fd [] w2;
            (r2, w4) = sys_setfl fd flags w3
        in if result < 0 \<and> errno w4 = EBADF then (0, w4) else (1, w4))"

subsection \<open>open_serial_port (lines 136 to 177)\<close>

definition open_serial_port :: "env \<Rightarrow> string \<Rightarrow> world \<Rightarrow> int \<times> world" where
  "open_serial_port env port w =
     (let (fd, w1) = sys_open env port (O_RDWR OR O_NOCTTY OR O_NONBLOCK) w in
      if fd < 0 then (- 1, log_message ERROR (OpenError port (errno w1)) w1)
      else
        let (r, w2) = sys_tcgetattr env fd w1 in
        if r < 0 then (- 1, snd (sys_close fd (log_message ERROR TcgetattrFailed w2)))
        else
          let (r, w3) = sys_tcsetattr env fd w2 in
          if r < 0 then (- 1, snd (sys_close fd (log_message ERROR TcsetattrFailed w3)))
          else
            let (flags, w4) = sys_getfl fd w3;
                (r, w5) = sys_setfl fd (flags AND NOT O_NONBLOCK) w4
            in (fd, log_message INFO (PortOpened port) w5))"

subsection \<open>init_minitel_screen (lines 182 to 202)\<close>

definition init_minitel_screen :: "env \<Rightarrow> int \<Rightarrow> world \<Rightarrow> int \<times> world" where
  "init_minitel_screen env fd w =
     (if fd < 0 then (- 1, w)
      else
        let (alive, w1) = check_serial_connection env fd w in
        if alive = 0 then (- 1, w1)
        else
          let (r, w2) = sys_write env fd [12] w1 in
          if r < 0 then (- 1, log_message ERROR ClearScreenError w2)
          else
            let w3 = sys_usleep 300000 w2;
                (r, w4) = sys_write env fd (replicate 10 10) w3
            in if r < 0 then (- 1, log_message ERROR LinesError w4)
               else (0, log_message INFO ScreenInitialised w4))"

subsection \<open>send_file_to_minitel (lines 207 to 283)\<close>

text \<open>The conversion of an \<open>int\<close> to plain \<open>char\<close>, and the wrap-around of a 32-bit \<open>int\<close>.\<close>

definition to_char :: "int \<Rightarrow> 8 word" where
  "to_char i = word_of_int i"

definition int32 :: "int \<Rightarrow> int" where
  "int32 i = sint (word_of_int i :: 32 word)"

text \<open>
  The body of the while loop, lines 228 to 260, for the character \<open>c\<close> just
  read.  \<open>None\<close> is the early \<open>return -1\<close>, after the stream was closed;
  otherwise the new \<open>count\<close> and \<open>bytes_sent\<close> go back to the loop head.
\<close>

definition loop_body ::
  "env \<Rightarrow> int \<Rightarrow> int \<Rightarrow> 8 word \<Rightarrow> int \<Rightarrow> int \<Rightarrow> world \<Rightarrow> (int \<times> int) option \<times> world" where
  "loop_body env fd delay c count bytes_sent w =
     (let (alive, w1) =
            (if bytes_sent mod 100 = 0 then check_serial_connection env fd w else (1, w))
      in
      if bytes_sent mod 100 = 0 \<and> alive = 0
      then (None, sys_fclose (log_message ERROR ConnectionLost w1))
      else if sint c = 10 then (Some (count, bytes_sent), w1)
      else
        let (r, w2) = sys_write env fd [c] w1 in
        if r < 0 then (None, sys_fclose (log_message ERROR CharWriteError w2))
        else
          let bytes_sent' = int32 (bytes_sent + 1);
              count' = count + 1
          in
          if count' \<ge> CHARS_PER_LINE
          then
            let (r, w3) = sys_write env fd [13, 10] w2 in
            if r < 0 then (None, sys_fclose (log_message ERROR NewlineError w3))
            else (Some (0, bytes_sent'), sys_usleep delay w3)
          else (Some (count', bytes_sent'), sys_usleep delay w2))"

text \<open>
  The while loop of line 227.  The result is \<open>None\<close> after an early return,
  and otherwise \<open>count\<close>, \<open>bytes_sent\<close> and the unread rest of the stream at
  the point where the loop condition failed.
\<close>

function send_loop ::
  "env \<Rightarrow> int \<Rightarrow> int \<Rightarrow> byte list \<Rightarrow> int \<Rightarrow> int \<Rightarrow> world
     \<Rightarrow> (int \<times> int \<times> byte list) option \<times> world" where
  "send_loop env fd delay file count bytes_sent w =
     (let w1 = deliver env w in
      if keep_running w1 = 0 then (Some (count, bytes_sent, file), w1)
      else
        let (r, file') = fgetc file;
            c = to_char r
        in
        if sint c = EOF then (Some (count, bytes_sent, file'), w1)
        else
          (case loop_body env fd delay c count bytes_sent w1 of
             (None, w2) \<Rightarrow> (None, w2)
           | (Some (count', bytes_sent'), w2) \<Rightarrow>
               send_loop env fd delay file' count' bytes_sent' w2))"
  by pat_completeness auto
termination
proof (relation "measure (\<lambda>(env, fd, delay, src, count, bytes_sent, w). length src)")
  show "wf (measure (\<lambda>(env, fd, delay, src, count, bytes_sent, w). length src))"
    by simp
next
  fix env :: env and fd delay :: int and src :: "byte list" and count bytes_sent :: int
    and w w1 :: world and x :: "int \<times> byte list" and r :: int and src' :: "byte list"
    and c :: "8 word" and y :: "(int \<times> int) option \<times> world" and x1 :: "(int \<times> int) option"
    and w2 :: world and z :: "int \<times> int" and count' bytes_sent' :: int
  assume "x = fgetc src" and "(r, src') = x" and "c = to_char r" and "sint c \<noteq> EOF"
  then have "src \<noteq> []"
    by (auto simp: fgetc_def to_char_def EOF_def)
  with \<open>x = fgetc src\<close> \<open>(r, src') = x\<close> have "length src' < length src"
    by (cases src) (auto simp: fgetc_def)
  then show "((env, fd, delay, src', count', bytes_sent', w2),
              (env, fd, delay, src, count, bytes_sent, w))
             \<in> measure (\<lambda>(env, fd, delay, src, count, bytes_sent, w). length src)"
    by simp
qed

text \<open>The for loop of line 272; \<open>False\<close> is the \<open>return -1\<close> of line 275.\<close>

function skip_lines :: "env \<Rightarrow> int \<Rightarrow> int \<Rightarrow> world \<Rightarrow> bool \<times> world" where
  "skip_lines env fd i w =
     (if i < LINES_SKIP
      then
        let w1 = deliver env w in
        if keep_running w1 \<noteq> 0
        then
          let (r, w2) = sys_write env fd [10] w1 in
          if r < 0 then (False, log_message ERROR SkipLinesError w2)
          else skip_lines env fd (i + 1) w2
        else (True, w1)
      else (True, w))"
  by pat_completeness auto
termination
  by (relation "measure (\<lambda>(env, fd, i, w). nat (LINES_SKIP - i))") auto

text \<open>Lines 265 to 282: what follows the \<open>fclose\<close> of line 263.\<close>

definition send_finish :: "env \<Rightarrow> int \<Rightarrow> int \<Rightarrow> world \<Rightarrow> int \<times> world" where
  "send_finish env fd bytes_sent w =
     (let (r, w1) = sys_write env fd [13] w in
      if r < 0 then (- 1, log_message ERROR CarriageReturnError w1)
      else
        (case skip_lines env fd 0 w1 of
           (False, w2) \<Rightarrow> (- 1, w2)
         | (True, w2) \<Rightarrow> (0, log_message INFO (FileSent bytes_sent) w2)))"

text \<open>Lines 227 to 282, with the stream and the two counters as they are at line 227.\<close>

definition send_stream ::
  "env \<Rightarrow> int \<Rightarrow> int \<Rightarrow> byte list \<Rightarrow> int \<Rightarrow> int \<Rightarrow> world \<Rightarrow> int \<times> world" where
  "send_stream env fd delay file count bytes_sent w =
     (case send_loop env fd delay file count bytes_sent w of
        (None, w1) \<Rightarrow> (- 1, w1)
      | (Some (count', bytes_sent', file'), w1) \<Rightarrow>
          send_finish env fd bytes_sent' (sys_fclose w1))"

definition send_file_to_minitel :: "env \<Rightarrow> int \<Rightarrow> string \<Rightarrow> int \<Rightarrow> world \<Rightarrow> int \<times> world" where
  "send_file_to_minitel env fd filename delay w =
     (let (alive, w1) = (if fd < 0 then (0, w) else check_serial_connection env fd w) in
      if fd < 0 \<or> alive = 0 then (- 1, log_message ERROR NotConnected w1)
      else
        (case sys_fopen env filename w1 of
           (None, w2) \<Rightarrow> (- 1, log_message ERROR (OpenError filename (errno w2)) w2)
         | (Some file, w2) \<Rightarrow> send_stream env fd delay file 0 0 w2))"

subsection \<open>main (lines 301 to 404)\<close>

text \<open>
  The command line is read before the loop and is given here as the values
  it leaves in the four variables.  The supervisor loop may run for ever, so
  main is a machine that goes from one program point to the next: the head of
  the outer loop (line 331), the call of init_minitel_screen (line 356), the
  head of the inner loop (line 364), and the return from main.
\<close>

record config =
  filename :: string
  port :: string
  delay :: int
  one_shot :: int

datatype pc = OuterHead | Init | InnerHead | Exited int

record mstate =
  pc :: pc
  retry_count :: int
  last_watchdog :: int
  world :: world

text \<open>The state of the process when main is entered, lines 47 to 49.\<close>

definition world0 :: world where
  "world0 = \<lparr>keep_running = 1, reconnect_needed = 0, fd_global = - 1,
             fds = Map.empty, errno = 0, trace = [],
             n_open = 0, n_tcget = 0, n_tcset = 0, n_write = 0, n_fopen = 0,
             n_poll = 0, n_time = 0\<rparr>"

text \<open>Lines 307 to 328.\<close>

definition main_init :: "env \<Rightarrow> config \<Rightarrow> mstate" where
  "main_init env cfg =
     (let (now, w1) = sys_time env world0;
          w2 = log_message INFO Startup w1;
          w3 = log_message INFO (Settings (port cfg) (filename cfg) (delay cfg)) w2
      in \<lparr>pc = OuterHead, retry_count = 0, last_watchdog = now, world = w3\<rparr>)"

text \<open>Lines 388 to 398, which lead back to the head of the outer loop.\<close>

definition leave_stream :: "env \<Rightarrow> mstate \<Rightarrow> world \<Rightarrow> mstate" where
  "leave_stream env s w =
     (let w1 = (if fd_global w \<ge> 0
                then log_message INFO PortClosed
                       ((snd (sys_close (fd_global w) w))\<lparr>fd_global := - 1\<rparr>)
                else w);
          w2 = deliver env w1;
          w3 = (if reconnect_needed w2 \<noteq> 0 \<and> keep_running w2 \<noteq> 0
                then sys_sleep 5 (log_message INFO ReconnectWait w2)
                else w2)
      in s\<lparr>pc := OuterHead, world := w3\<rparr>)"

text \<open>Lines 331 to 353: from the head of the outer loop to the next program point.\<close>

definition outer_step :: "env \<Rightarrow> config \<Rightarrow> mstate \<Rightarrow> mstate" where
  "outer_step env cfg s =
     (let w1 = deliver env (world s) in
      if keep_running w1 = 0
      then s\<lparr>pc := Exited 0, world := log_message INFO Shutdown w1\<rparr>
      else
        let (fd, w2) = open_serial_port env (port cfg) w1;
            w3 = w2\<lparr>fd_global := fd\<rparr>
        in
        if fd_global w3 < 0
        then
          let rc = retry_count s + 1 in
          if rc \<ge> MAX_RETRIES
          then s\<lparr>pc := Exited 1, retry_count := rc,
                 world := log_message FATAL TooManyRetries w3\<rparr>
          else s\<lparr>pc := OuterHead, retry_count := rc,
                 world := sys_sleep RETRY_DELAY
                            (log_message WARN (RetryWait rc MAX_RETRIES RETRY_DELAY) w3)\<rparr>
        else
          let w4 = deliver env w3 in
          s\<lparr>pc := Init, retry_count := 0, world := w4\<lparr>reconnect_needed := 0\<rparr>\<rparr>)"

text \<open>Lines 356 to 361.\<close>

definition init_step :: "env \<Rightarrow> config \<Rightarrow> mstate \<Rightarrow> mstate" where
  "init_step env cfg s =
     (let (r, w1) = init_minitel_screen env (fd_global (world s)) (world s) in
      if r < 0
      then s\<lparr>pc := OuterHead,
             world := sys_sleep RETRY_DELAY
                        ((snd (sys_close (fd_global w1) w1))\<lparr>fd_global := - 1\<rparr>)\<rparr>
      else s\<lparr>pc := InnerHead, world := w1\<rparr>)"

text \<open>Lines 373 to 385: what main does with the value \<open>r\<close> of send_file_to_minitel.\<close>

definition after_send :: "env \<Rightarrow> config \<Rightarrow> mstate \<Rightarrow> int \<Rightarrow> world \<Rightarrow> mstate" where
  "after_send env cfg s r w =
     (if r < 0
      then leave_stream env s ((log_message ERROR SendError w)\<lparr>reconnect_needed := 1\<rparr>)
      else if one_shot cfg \<noteq> 0
      then leave_stream env s ((log_message INFO OneShotStop w)\<lparr>keep_running := 0\<rparr>)
      else s\<lparr>pc := InnerHead, world := sys_sleep 1 w\<rparr>)"

text \<open>Lines 364 to 386: one turn of the inner loop, or the way out of it.\<close>

definition inner_step :: "env \<Rightarrow> config \<Rightarrow> mstate \<Rightarrow> mstate" where
  "inner_step env cfg s =
     (let w1 = deliver env (world s) in
      if keep_running w1 \<noteq> 0 \<and> reconnect_needed w1 = 0
      then
        let (now, w2) = sys_time env w1;
            s1 = (if now - last_watchdog s > WATCHDOG_TIMEOUT
                  then s\<lparr>last_watchdog := now, world := log_message INFO WatchdogAlive w2\<rparr>
                  else s\<lparr>world := w2\<rparr>);
            (r, w3) = send_file_to_minitel env (fd_global (world s1)) (filename cfg)
                        (delay cfg) (world s1)
        in after_send env cfg s1 r w3
      else leave_stream env s w1)"

definition main_step :: "env \<Rightarrow> config \<Rightarrow> mstate \<Rightarrow> mstate" where
  "main_step env cfg s =
     (case pc s of
        OuterHead \<Rightarrow> outer_step env cfg s
      | Init \<Rightarrow> init_step env cfg s
      | InnerHead \<Rightarrow> inner_step env cfg s
      | Exited code \<Rightarrow> s)"

text \<open>The state of main after \<open>n\<close> steps.\<close>

fun main_run :: "env \<Rightarrow> config \<Rightarrow> nat \<Rightarrow> mstate" where
  "main_run env cfg 0 = main_init env cfg"
| "main_run env cfg (Suc n) = main_step env cfg (main_run env cfg n)"

text \<open>
  What a step from the head of the outer loop does with the serial port: it
  finds keep_running set, calls open_serial_port, and that call fails or
  succeeds.
\<close>

definition open_attempt_fails :: "env \<Rightarrow> config \<Rightarrow> mstate \<Rightarrow> bool" where
  "open_attempt_fails env cfg s =
     (keep_running (deliver env (world s)) \<noteq> 0 \<and>
      fst (open_serial_port env (port cfg) (deliver env (world s))) < 0)"

definition open_attempt_succeeds :: "env \<Rightarrow> config \<Rightarrow> mstate \<Rightarrow> bool" where
  "open_attempt_succeeds env cfg s =
     (keep_running (deliver env (world s)) \<noteq> 0 \<and>
      0 \<le> fst (open_serial_port env (port cfg) (deliver env (world s))))"

section \<open>Reading a trace\<close>

text \<open>The events a call added to the trace.\<close>

definition new_events :: "world \<Rightarrow> world \<Rightarrow> event list" where
  "new_events w w' = drop (length (trace w)) (trace w')"

text \<open>
  Inside the while loop of send_file_to_minitel a write of one byte is a
  byte of the source, and the write of CR LF is the line wrap.
\<close>

fun content_of :: "event \<Rightarrow> byte list" where
  "content_of (Write fd bs r) = (if length bs = 1 \<and> r \<ge> 0 then bs else [])"
| "content_of e = []"

definition forwarded :: "event list \<Rightarrow> byte list" where
  "forwarded evs = concat (map content_of evs)"

fun is_wrap :: "event \<Rightarrow> bool" where
  "is_wrap (Write fd bs r) = (bs = [13, 10])"
| "is_wrap e = False"

definition wraps :: "event list \<Rightarrow> nat" where
  "wraps evs = length (filter is_wrap evs)"

fun is_write :: "event \<Rightarrow> bool" where
  "is_write (Write fd bs r) = True"
| "is_write e = False"

definition writes :: "event list \<Rightarrow> event list" where
  "writes evs = filter is_write evs"

definition fcloses :: "event list \<Rightarrow> nat" where
  "fcloses evs = length (filter (\<lambda>e. e = Fclose) evs)"

fun is_fopen :: "event \<Rightarrow> bool" where
  "is_fopen (Fopen name ok) = True"
| "is_fopen e = False"

fun is_log :: "event \<Rightarrow> bool" where
  "is_log (Log lvl m) = True"
| "is_log e = False"

text \<open>
  In the events of one call of send_file_to_minitel, the events of the while
  loop are those after the fopen and before the first fclose.
\<close>

definition stream_events :: "event list \<Rightarrow> event list" where
  "stream_events evs =
     takeWhile (\<lambda>e. e \<noteq> Fclose) (drop 1 (dropWhile (\<lambda>e. \<not> is_fopen e) evs))"

text \<open>The bytes that reached the device.\<close>

fun bytes_of :: "event \<Rightarrow> byte list" where
  "bytes_of (Write fd bs r) = (if r \<ge> 0 then bs else [])"
| "bytes_of e = []"

definition device_bytes :: "event list \<Rightarrow> byte list" where
  "device_bytes evs = concat (map bytes_of evs)"

text \<open>
  The line wrap in the words of the specification: a CR LF after every 80
  forwarded bytes, and none after a last line of fewer than 80 bytes.
  \<open>wrapped_from c\<close> is the same for a line that already holds \<open>c\<close> bytes.
\<close>

function wrapped :: "byte list \<Rightarrow> byte list" where
  "wrapped xs =
     (if length xs < 80 then xs else take 80 xs @ [13, 10] @ wrapped (drop 80 xs))"
  by pat_completeness auto
termination
  by (relation "measure length") auto

definition wrapped_from :: "nat \<Rightarrow> byte list \<Rightarrow> byte list" where
  "wrapped_from c xs =
     (if length xs < 80 - c then xs
      else take (80 - c) xs @ [13, 10] @ wrapped (drop (80 - c) xs))"

text \<open>
  What makes a call of send_file_to_minitel fail, read from its events: the
  source cannot be opened, a write of bytes fails, or a probe write (a write
  of no bytes) fails with EBADF.  \<open>k\<close> is the number of the first write of
  the events among the writes of the process, so that the answer of the
  oracle to each write can be looked up.
\<close>

fun failure_in :: "env \<Rightarrow> nat \<Rightarrow> event list \<Rightarrow> bool" where
  "failure_in env k [] = False"
| "failure_in env k (Write fd bs r # evs) =
     ((bs \<noteq> [] \<and> r < 0) \<or> (bs = [] \<and> e_write env k = Some EBADF) \<or>
      failure_in env (Suc k) evs)"
| "failure_in env k (Fopen name ok # evs) = (\<not> ok \<or> failure_in env k evs)"
| "failure_in env k (e # evs) = failure_in env k evs"

text \<open>
  What the signal handlers can do to the two flags between two points of the
  program: lower keep_running and raise reconnect_needed, never the reverse.
\<close>

definition flags_kept :: "world \<Rightarrow> world \<Rightarrow> bool" where
  "flags_kept w w' =
     ((keep_running w = 0 \<longrightarrow> keep_running w' = 0) \<and>
      (reconnect_needed w \<noteq> 0 \<longrightarrow> reconnect_needed w' \<noteq> 0))"

section \<open>Example environments\<close>

text \<open>
  An environment in which every call succeeds, no signal arrives, open gives
  descriptor 3 and the source file holds the given bytes; a world in which
  descriptor 3 is open for reading and writing; and a configuration.
\<close>

definition env_ok :: "byte list \<Rightarrow> env" where
  "env_ok src =
     \<lparr>e_open = (\<lambda>n. Inr 3), e_tcget = (\<lambda>n. None), e_tcset = (\<lambda>n. None),
      e_write = (\<lambda>n. None), e_fopen = (\<lambda>n. Inr src), e_sigs = (\<lambda>n. []),
      e_time = (\<lambda>n. 0)\<rparr>"

definition world3 :: world where
  "world3 = world0\<lparr>fds := [3 \<mapsto> O_RDWR]\<rparr>"

definition cfg0 :: config where
  "cfg0 = \<lparr>filename = ''text.txt'', port = ''/dev/ttyUSB0'', delay = 0, one_shot = 0\<rparr>"

text \<open>
  Environments in which something goes wrong: SIGINT arrives before the
  \<open>k\<close>-th look at a flag; the \<open>k\<close>-th write fails with EIO (both count
  from 0); the serial port cannot be opened; and SIGHUP
  arrives at once, the first open fails, the second succeeds, and every
  write fails with EIO.
\<close>

definition env_sigint_at :: "nat \<Rightarrow> byte list \<Rightarrow> env" where
  "env_sigint_at k src = (env_ok src)\<lparr>e_sigs := (\<lambda>n. if n = k then [SIGINT] else [])\<rparr>"


definition env_no_port :: env where
  "env_no_port = (env_ok [])\<lparr>e_open := (\<lambda>n. Inl 2)\<rparr>"

definition env_sighup_init_fails :: env where
  "env_sighup_init_fails =
     (env_ok [])\<lparr>e_sigs := (\<lambda>n. if n = 0 then [SIGHUP] else []),
                 e_open := (\<lambda>n. if n = 0 then Inl 2 else Inr 3),
                 e_write := (\<lambda>n. Some 5)\<rparr>"

section \<open>Properties of the system calls\<close>

lemma emit_simps [simp]:
  "fds (emit e w) = fds w"
  "errno (emit e w) = errno w"
  "trace (emit e w) = trace w @ [e]"
  "keep_running (emit e w) = keep_running w"
  "reconnect_needed (emit e w) = reconnect_needed w"
  "fd_global (emit e w) = fd_global w"
  "n_open (emit e w) = n_open w"
  "n_tcget (emit e w) = n_tcget w"
  "n_tcset (emit e w) = n_tcset w"
  "n_write (emit e w) = n_write w"
  "n_fopen (emit e w) = n_fopen w"
  "n_poll (emit e w) = n_poll w"
  "n_time (emit e w) = n_time w"
  by (simp_all add: emit_def)

lemma new_events_append: "trace w' = trace w @ evs \<Longrightarrow> new_events w w' = evs"
  by (simp add: new_events_def)

lemma new_events_same [simp]: "new_events w w = []"
  by (simp add: new_events_def)

text \<open>Setting the flags with O_NONBLOCK added and setting the saved flags again gives the saved flags.\<close>

lemma setfl_restore:
  "(((fl AND NOT m) OR ((fl OR nb) AND m)) AND NOT m) OR (fl AND m) = (fl::int)"
  by (rule bit_eqI) (auto simp: bit_simps)

declare send_loop.simps [simp del]

declare skip_lines.simps [simp del]

lemma forwarded_simps [simp]:
  "forwarded [] = []" "forwarded (a @ b) = forwarded a @ forwarded b"
  "forwarded (e # evs) = content_of e @ forwarded evs"
  by (simp_all add: forwarded_def)

lemma wraps_simps [simp]:
  "wraps [] = 0" "wraps (a @ b) = wraps a + wraps b"
  "wraps (e # evs) = (if is_wrap e then 1 else 0) + wraps evs"
  by (simp_all add: wraps_def)

lemma device_bytes_simps [simp]:
  "device_bytes [] = []" "device_bytes (a @ b) = device_bytes a @ device_bytes b"
  "device_bytes (e # evs) = bytes_of e @ device_bytes evs"
  by (simp_all add: device_bytes_def)

lemma fcloses_simps [simp]:
  "fcloses [] = 0" "fcloses (a @ b) = fcloses a + fcloses b"
  "fcloses (e # evs) = (if e = Fclose then 1 else 0) + fcloses evs"
  by (simp_all add: fcloses_def)

lemma writes_simps [simp]:
  "writes [] = []" "writes (a @ b) = writes a @ writes b"
  "writes (e # evs) = (if is_write e then [e] else []) @ writes evs"
  by (simp_all add: writes_def)

lemma sys_write_fields [simp]:
  "keep_running (snd (sys_write env fd bs w)) = keep_running w"
  "reconnect_needed (snd (sys_write env fd bs w)) = reconnect_needed w"
  "fd_global (snd (sys_write env fd bs w)) = fd_global w"
  "fds (snd (sys_write env fd bs w)) = fds w"
  "n_poll (snd (sys_write env fd bs w)) = n_poll w"
  "n_write (snd (sys_write env fd bs w)) = n_write w + 1"
  "trace (snd (sys_write env fd bs w)) = trace w @ [Write fd bs (fst (sys_write env fd bs w))]"
  by (simp_all add: sys_write_def Let_def split: option.splits)

lemma log_message_fields [simp]:
  "keep_running (log_message l m w) = keep_running w"
  "reconnect_needed (log_message l m w) = reconnect_needed w"
  "fd_global (log_message l m w) = fd_global w"
  "fds (log_message l m w) = fds w"
  "errno (log_message l m w) = errno w"
  "n_poll (log_message l m w) = n_poll w"
  "n_write (log_message l m w) = n_write w"
  "n_open (log_message l m w) = n_open w"
  "trace (log_message l m w) = trace w @ [Log l m]"
  by (simp_all add: log_message_def)

lemma sys_fclose_fields [simp]:
  "keep_running (sys_fclose w) = keep_running w"
  "reconnect_needed (sys_fclose w) = reconnect_needed w"
  "fd_global (sys_fclose w) = fd_global w"
  "fds (sys_fclose w) = fds w"
  "n_poll (sys_fclose w) = n_poll w"
  "n_write (sys_fclose w) = n_write w"
  "trace (sys_fclose w) = trace w @ [Fclose]"
  by (simp_all add: sys_fclose_def)

lemma sys_usleep_fields [simp]:
  "keep_running (sys_usleep d w) = keep_running w"
  "reconnect_needed (sys_usleep d w) = reconnect_needed w"
  "fd_global (sys_usleep d w) = fd_global w"
  "fds (sys_usleep d w) = fds w"
  "n_poll (sys_usleep d w) = n_poll w"
  "n_write (sys_usleep d w) = n_write w"
  "trace (sys_usleep d w) = trace w @ [Usleep d]"
  by (simp_all add: sys_usleep_def)

lemma sys_sleep_fields [simp]:
  "keep_running (sys_sleep d w) = keep_running w"
  "reconnect_needed (sys_sleep d w) = reconnect_needed w"
  "fd_global (sys_sleep d w) = fd_global w"
  "fds (sys_sleep d w) = fds w"
  "n_poll (sys_sleep d w) = n_poll w"
  "n_open (sys_sleep d w) = n_open w"
  "trace (sys_sleep d w) = trace w @ [Sleep d]"
  by (simp_all add: sys_sleep_def)

lemma sys_fopen_fields [simp]:
  "keep_running (snd (sys_fopen env name w)) = keep_running w"
  "reconnect_needed (snd (sys_fopen env name w)) = reconnect_needed w"
  "fd_global (snd (sys_fopen env name w)) = fd_global w"
  "fds (snd (sys_fopen env name w)) = fds w"
  "n_poll (snd (sys_fopen env name w)) = n_poll w"
  "n_write (snd (sys_fopen env name w)) = n_write w"
  "trace (snd (sys_fopen env name w)) =
     trace w @ [Fopen name (fst (sys_fopen env name w) \<noteq> None)]"
  by (simp_all add: sys_fopen_def Let_def split: sum.splits)

section \<open>The serial link\<close>

text \<open>
  C7.  When open_serial_port returns an error, the table of open descriptors
  is the one it started with.  In particular, when the call of open gave a
  descriptor and tcgetattr or tcsetattr failed afterwards, that descriptor is
  closed again, close is the last thing done before the return, and it is
  done once.
\<close>

theorem open_serial_port_closes_on_error:
  "(fst (open_serial_port env dev w) < 0 \<longrightarrow>
      fds (snd (open_serial_port env dev w)) = fds w) \<and>
   (\<forall>fd. fst (sys_open env dev (O_RDWR OR O_NOCTTY OR O_NONBLOCK) w) = fd \<and> 0 \<le> fd \<and>
          fst (open_serial_port env dev w) < 0 \<longrightarrow>
      fds (snd (open_serial_port env dev w)) fd = None \<and>
      last (new_events w (snd (open_serial_port env dev w))) = Close fd \<and>
      length (filter (\<lambda>e. e = Close fd)
                (new_events w (snd (open_serial_port env dev w)))) = 1)"
  by (auto simp: open_serial_port_def sys_open_def sys_tcgetattr_def sys_tcsetattr_def
      sys_getfl_def sys_setfl_def sys_close_def log_message_def Let_def new_events_append
      split: option.splits sum.splits)

theorem open_serial_port_closes_on_error_witness:
  "fst (open_serial_port ((env_ok [])\<lparr>e_tcget := (\<lambda>n. Some 5)\<rparr>) ''/dev/ttyUSB0'' world0) < 0 \<and>
   fst (sys_open ((env_ok [])\<lparr>e_tcget := (\<lambda>n. Some 5)\<rparr>) ''/dev/ttyUSB0''
          (O_RDWR OR O_NOCTTY OR O_NONBLOCK) world0) = 3 \<and>
   fds (snd (open_serial_port ((env_ok [])\<lparr>e_tcget := (\<lambda>n. Some 5)\<rparr>)
               ''/dev/ttyUSB0'' world0)) = fds world0 \<and>
   fds (snd (open_serial_port ((env_ok [])\<lparr>e_tcget := (\<lambda>n. Some 5)\<rparr>)
               ''/dev/ttyUSB0'' world0)) 3 = None \<and>
   last (new_events world0 (snd (open_serial_port ((env_ok [])\<lparr>e_tcget := (\<lambda>n. Some 5)\<rparr>)
                                   ''/dev/ttyUSB0'' world0))) = Close 3"
  using open_serial_port_closes_on_error
    [of "(env_ok [])\<lparr>e_tcget := (\<lambda>n. Some 5)\<rparr>" "''/dev/ttyUSB0''" world0]
  by (simp add: open_serial_port_def sys_open_def sys_tcgetattr_def env_ok_def world0_def
      Let_def new_events_append)

text \<open>
  C8.  check_serial_connection returns 0 for a negative handle, for a handle
  that is not an open descriptor (never opened, or closed: the probe write
  then fails with EBADF), and when the probe write on an open descriptor
  fails with EBADF.  In every other case it returns 1, also when the probe
  write fails with another error.
\<close>

theorem check_serial_connection_result:
  "fst (check_serial_connection env fd w) =
     (if fd < 0 \<or> fds w fd = None \<or> e_write env (n_write w) = Some EBADF then 0 else 1)"
  by (auto simp: check_serial_connection_def sys_getfl_def sys_setfl_def sys_write_def
      Let_def split: option.splits)

text \<open>
  C10.  check_serial_connection leaves the file status flags of every
  descriptor as they were, whatever the handle and whatever the probe write
  gives.  On an open descriptor it reads the flags, sets them with O_NONBLOCK
  added, does the probe write of no bytes, and sets the flags it read, in
  this order and nothing else.
\<close>

theorem check_serial_connection_keeps_flags:
  "fds (snd (check_serial_connection env fd w)) = fds w \<and>
   (\<forall>fl. 0 \<le> fd \<and> fds w fd = Some fl \<longrightarrow>
      new_events w (snd (check_serial_connection env fd w)) =
        [Getfl fd fl, Setfl fd (fl OR O_NONBLOCK),
         Write fd [] (case e_write env (n_write w) of None \<Rightarrow> 0 | Some e \<Rightarrow> - 1),
         Setfl fd fl])"
  by (auto simp: check_serial_connection_def sys_getfl_def sys_setfl_def sys_write_def
      setfl_restore Let_def new_events_append split: option.splits)

theorem check_serial_connection_keeps_flags_witness:
  "0 \<le> (3::int) \<and> fds world3 3 = Some 2 \<and>
   fds (snd (check_serial_connection (env_ok []) 3 world3)) = fds world3 \<and>
   new_events world3 (snd (check_serial_connection (env_ok []) 3 world3)) =
     [Getfl 3 2, Setfl 3 2050, Write 3 [] 0, Setfl 3 2]"
  using check_serial_connection_keeps_flags [of "env_ok []" 3 world3]
  by (simp add: world3_def world0_def env_ok_def O_RDWR_def O_NONBLOCK_def)

text \<open>What the rest of the program needs to know about the probe.\<close>

lemma check_fields [simp]:
  "keep_running (snd (check_serial_connection env fd w)) = keep_running w"
  "reconnect_needed (snd (check_serial_connection env fd w)) = reconnect_needed w"
  "fd_global (snd (check_serial_connection env fd w)) = fd_global w"
  "fds (snd (check_serial_connection env fd w)) = fds w"
  "n_poll (snd (check_serial_connection env fd w)) = n_poll w"
  by (auto simp: check_serial_connection_def sys_getfl_def sys_setfl_def sys_write_def
      setfl_restore Let_def split: option.splits)

lemma check_trace:
  "trace (snd (check_serial_connection env fd w)) =
     trace w @ new_events w (snd (check_serial_connection env fd w))"
  by (auto simp: check_serial_connection_def sys_getfl_def sys_setfl_def sys_write_def
      Let_def new_events_append split: option.splits)

lemma check_new_events [simp]:
  "forwarded (new_events w (snd (check_serial_connection env fd w))) = []"
  "wraps (new_events w (snd (check_serial_connection env fd w))) = 0"
  "fcloses (new_events w (snd (check_serial_connection env fd w))) = 0"
  by (auto simp: check_serial_connection_def sys_getfl_def sys_setfl_def sys_write_def
      Let_def new_events_append split: option.splits)

section \<open>Signals\<close>

lemma signal_handler_fields [simp]:
  "fd_global (signal_handler s w) = fd_global w"
  "fds (signal_handler s w) = fds w"
  "n_poll (signal_handler s w) = n_poll w"
  "n_write (signal_handler s w) = n_write w"
  "n_open (signal_handler s w) = n_open w"
  by (simp_all add: signal_handler_def)

lemma signal_handler_stopped [simp]:
  "keep_running w = 0 \<Longrightarrow> keep_running (signal_handler s w) = 0"
  by (simp add: signal_handler_def)

lemma handlers_fields:
  "fd_global (foldl (\<lambda>v s. signal_handler s v) w sigs) = fd_global w \<and>
   fds (foldl (\<lambda>v s. signal_handler s v) w sigs) = fds w \<and>
   n_poll (foldl (\<lambda>v s. signal_handler s v) w sigs) = n_poll w \<and>
   n_write (foldl (\<lambda>v s. signal_handler s v) w sigs) = n_write w \<and>
   n_open (foldl (\<lambda>v s. signal_handler s v) w sigs) = n_open w \<and>
   (keep_running w = 0 \<longrightarrow> keep_running (foldl (\<lambda>v s. signal_handler s v) w sigs) = 0)"
  by (induction sigs arbitrary: w) simp_all

lemma handlers_trace:
  "\<exists>evs. trace (foldl (\<lambda>v s. signal_handler s v) w sigs) = trace w @ evs \<and>
         (\<forall>e \<in> set evs. is_log e)"
proof (induction sigs arbitrary: w)
  case Nil
  then show ?case by simp
next
  case (Cons s sigs)
  obtain evs where 1: "trace (foldl (\<lambda>v s. signal_handler s v) (signal_handler s w) sigs) =
      trace (signal_handler s w) @ evs" and 2: "\<forall>e \<in> set evs. is_log e"
    using Cons.IH by blast
  have "\<exists>a. trace (signal_handler s w) = trace w @ a \<and> (\<forall>e \<in> set a. is_log e)"
    by (simp add: signal_handler_def)
  then obtain a where 3: "trace (signal_handler s w) = trace w @ a" and 4: "\<forall>e \<in> set a. is_log e"
    by blast
  show ?case
    using 1 2 3 4 by (intro exI [of _ "a @ evs"]) auto
qed

lemma deliver_fields [simp]:
  "fd_global (deliver env w) = fd_global w"
  "fds (deliver env w) = fds w"
  "n_poll (deliver env w) = n_poll w + 1"
  "n_write (deliver env w) = n_write w"
  "n_open (deliver env w) = n_open w"
  using handlers_fields [of "w\<lparr>n_poll := n_poll w + 1\<rparr>" "e_sigs env (n_poll w)"]
  by (simp_all add: deliver_def)

lemma deliver_stopped [simp]: "keep_running w = 0 \<Longrightarrow> keep_running (deliver env w) = 0"
  using handlers_fields [of "w\<lparr>n_poll := n_poll w + 1\<rparr>" "e_sigs env (n_poll w)"]
  by (simp add: deliver_def)

lemma deliver_logs:
  "trace (deliver env w) = trace w @ new_events w (deliver env w) \<and>
   (\<forall>e \<in> set (new_events w (deliver env w)). is_log e)"
proof -
  obtain evs where "trace (deliver env w) = trace w @ evs" "\<forall>e \<in> set evs. is_log e"
    using handlers_trace [of "w\<lparr>n_poll := n_poll w + 1\<rparr>" "e_sigs env (n_poll w)"]
    by (auto simp: deliver_def)
  then show ?thesis by (simp add: new_events_append)
qed

lemma logs_count:
  "\<forall>e \<in> set evs. is_log e \<Longrightarrow>
     forwarded evs = [] \<and> wraps evs = 0 \<and> fcloses evs = 0 \<and> writes evs = []"
  by (induction evs) (auto elim: is_log.elims)

lemma deliver_trace: "trace (deliver env w) = trace w @ new_events w (deliver env w)"
  using deliver_logs by blast

lemma deliver_new_events [simp]:
  "forwarded (new_events w (deliver env w)) = []"
  "wraps (new_events w (deliver env w)) = 0"
  "fcloses (new_events w (deliver env w)) = 0"
  "writes (new_events w (deliver env w)) = []"
  using deliver_logs [of env w] logs_count by blast+

lemma deliver_quiet: "e_sigs env (n_poll w) = [] \<Longrightarrow> deliver env w = w\<lparr>n_poll := n_poll w + 1\<rparr>"
  by (simp add: deliver_def)

section \<open>The transmitter\<close>

subsection \<open>The body of the loop\<close>

lemmas loop_body_defs = loop_body_def check_serial_connection_def sys_getfl_def sys_setfl_def
  sys_write_def sys_fclose_def sys_usleep_def log_message_def Let_def CHARS_PER_LINE_def
  new_events_append

lemma loop_body_fields [simp]:
  "keep_running (snd (loop_body env fd d c count n w)) = keep_running w"
  "reconnect_needed (snd (loop_body env fd d c count n w)) = reconnect_needed w"
  "fd_global (snd (loop_body env fd d c count n w)) = fd_global w"
  "fds (snd (loop_body env fd d c count n w)) = fds w"
  "n_poll (snd (loop_body env fd d c count n w)) = n_poll w"
  by (auto simp: loop_body_defs setfl_restore split: option.splits)

lemma loop_body_trace:
  "trace (snd (loop_body env fd d c count n w)) =
     trace w @ new_events w (snd (loop_body env fd d c count n w))"
  by (auto simp: loop_body_defs split: option.splits)

lemma loop_body_wraps:
  assumes "0 \<le> count" "count < 80" "loop_body env fd d c count n w = (res, w')"
  shows "\<exists>cf. 0 \<le> cf \<and> cf < 80 \<and>
           count + int (length (forwarded (new_events w w'))) =
             80 * int (wraps (new_events w w')) + cf \<and>
           (\<forall>c' n'. res = Some (c', n') \<longrightarrow> c' = cf)"
  using assms
  by (auto simp: loop_body_defs split: option.splits if_splits)

lemma loop_body_fcloses:
  "fcloses (new_events w (snd (loop_body env fd d c count n w))) =
     (case fst (loop_body env fd d c count n w) of None \<Rightarrow> 1 | Some x \<Rightarrow> 0)"
  by (auto simp: loop_body_defs split: option.splits)


lemma loop_body_forwarded:
  "loop_body env fd d c count n w = (Some (c', n'), w') \<Longrightarrow>
     forwarded (new_events w w') = (if sint c = 10 then [] else [c])"
  by (auto simp: loop_body_defs split: option.splits if_splits)

subsection \<open>The loop\<close>

lemma send_loop_Nil:
  "send_loop env fd d [] count n w = (Some (count, n, []), deliver env w)"
  by (subst send_loop.simps) (simp add: fgetc_def to_char_def EOF_def Let_def)

lemma send_loop_Cons:
  "send_loop env fd d (b # bs) count n w =
     (let w1 = deliver env w in
      if keep_running w1 = 0 then (Some (count, n, b # bs), w1)
      else if b = 255 then (Some (count, n, bs), w1)
      else (case loop_body env fd d b count n w1 of
              (None, w2) \<Rightarrow> (None, w2)
            | (Some (count', n'), w2) \<Rightarrow> send_loop env fd d bs count' n' w2))"
proof -
  have "(sint b = (- 1::int)) = (b = 255)"
  proof -
    have e: "(255::8 word) = - 1" by simp
    have "(sint b = (- 1::int)) = (b = - 1)"
      using word_eq_iff_signed [where ?'a = int, of b "- 1"] by simp
    then show ?thesis by (simp only: e)
  qed
  then show ?thesis
    by (subst send_loop.simps) (simp add: fgetc_def to_char_def EOF_def Let_def)
qed

lemma new_events_3:
  "trace w1 = trace w @ new_events w w1 \<Longrightarrow> trace w2 = trace w1 @ new_events w1 w2 \<Longrightarrow>
   trace w3 = trace w2 @ new_events w2 w3 \<Longrightarrow>
     new_events w w3 = new_events w w1 @ new_events w1 w2 @ new_events w2 w3"
  by (metis append.assoc new_events_append)

lemma send_loop_induct [consumes 1, case_names Eof Stop Byte255 Abort Step]:
  assumes run: "send_loop env fd d src count n w = (res, w')"
    and Eof: "\<And>count n w. keep_running (deliver env w) \<noteq> 0 \<Longrightarrow>
                P [] count n w (Some (count, n, [])) (deliver env w)"
    and Stop: "\<And>src count n w. keep_running (deliver env w) = 0 \<Longrightarrow>
                P src count n w (Some (count, n, src)) (deliver env w)"
    and Byte255: "\<And>bs count n w. keep_running (deliver env w) \<noteq> 0 \<Longrightarrow>
                P (255 # bs) count n w (Some (count, n, bs)) (deliver env w)"
    and Abort: "\<And>b bs count n w w2. keep_running (deliver env w) \<noteq> 0 \<Longrightarrow> b \<noteq> 255 \<Longrightarrow>
                loop_body env fd d b count n (deliver env w) = (None, w2) \<Longrightarrow>
                P (b # bs) count n w None w2"
    and Step: "\<And>b bs count n w count' n' w2 res w3.
                keep_running (deliver env w) \<noteq> 0 \<Longrightarrow> b \<noteq> 255 \<Longrightarrow>
                loop_body env fd d b count n (deliver env w) = (Some (count', n'), w2) \<Longrightarrow>
                send_loop env fd d bs count' n' w2 = (res, w3) \<Longrightarrow>
                P bs count' n' w2 res w3 \<Longrightarrow>
                P (b # bs) count n w res w3"
  shows "P src count n w res w'"
  using run
proof (induction src arbitrary: count n w)
  case Nil
  then show ?case
    using Eof [of w count n] Stop [of w "[]" count n]
    by (cases "keep_running (deliver env w) = 0") (auto simp: send_loop_Nil)
next
  case (Cons b bs)
  show ?case
  proof (cases "keep_running (deliver env w) = 0")
    case True
    with Cons.prems show ?thesis
      using Stop [of w "b # bs" count n] by (auto simp: send_loop_Cons)
  next
    case run: False
    show ?thesis
    proof (cases "b = 255")
      case True
      with run Cons.prems show ?thesis
        using Byte255 [of w bs count n] by (auto simp: send_loop_Cons)
    next
      case False
      obtain r w2 where body: "loop_body env fd d b count n (deliver env w) = (r, w2)"
        by (cases "loop_body env fd d b count n (deliver env w)")
      show ?thesis
      proof (cases r)
        case None
        with run False body Cons.prems show ?thesis
          using Abort [of w b count n w2 bs] by (auto simp: send_loop_Cons)
      next
        case (Some cn)
        obtain count' n' where cn: "cn = (count', n')" by (cases cn)
        from run False body Some cn Cons.prems
        have rest: "send_loop env fd d bs count' n' w2 = (res, w')"
          by (simp add: send_loop_Cons)
        from Step [OF run False _ rest Cons.IH [OF rest]] body Some cn
        show ?thesis by simp
      qed
    qed
  qed
qed

lemma send_loop_trace:
  "send_loop env fd d src count n w = (res, w') \<Longrightarrow> trace w' = trace w @ new_events w w'"
proof (induction rule: send_loop_induct)
  case (Step b bs count n w count' n' w2 res w3)
  have "trace w2 = trace (deliver env w) @ new_events (deliver env w) w2"
    using loop_body_trace [of env fd d b count n "deliver env w"] Step.hyps(3) by simp
  with Step.IH deliver_trace [of env w] show ?case
    by (metis append.assoc new_events_append)
next
  case (Abort b bs count n w w2)
  have "trace w2 = trace (deliver env w) @ new_events (deliver env w) w2"
    using loop_body_trace [of env fd d b count n "deliver env w"] Abort(3) by simp
  with deliver_trace [of env w] show ?case
    by (metis append.assoc new_events_append)
qed (simp_all add: deliver_trace)

lemma step_events:
  assumes "loop_body env fd d b count n (deliver env w) = (r, w2)"
    and "trace w3 = trace w2 @ new_events w2 w3"
  shows "new_events w w3 =
           new_events w (deliver env w) @ new_events (deliver env w) w2 @ new_events w2 w3"
proof -
  have "trace w2 = trace (deliver env w) @ new_events (deliver env w) w2"
    using loop_body_trace [of env fd d b count n "deliver env w"] assms(1) by simp
  then show ?thesis
    using new_events_3 [OF deliver_trace _ assms(2)] by simp
qed

lemma send_loop_fcloses:
  "send_loop env fd d src count n w = (res, w') \<Longrightarrow>
     fcloses (new_events w w') = (case res of None \<Rightarrow> 1 | Some x \<Rightarrow> 0)"
proof (induction rule: send_loop_induct)
  case (Step b bs count n w count' n' w2 res w3)
  have "new_events w w3 =
          new_events w (deliver env w) @ new_events (deliver env w) w2 @ new_events w2 w3"
    using step_events [OF Step.hyps(3) send_loop_trace [OF Step.hyps(4)]] .
  moreover have "fcloses (new_events (deliver env w) w2) = 0"
    using loop_body_fcloses [of "deliver env w" env fd d b count n] Step.hyps(3) by simp
  ultimately show ?case using Step.IH by simp
next
  case (Abort b bs count n w w2)
  have "new_events w w2 =
          new_events w (deliver env w) @ new_events (deliver env w) w2 @ new_events w2 w2"
    using step_events [OF Abort(3), of w2] by simp
  moreover have "fcloses (new_events (deliver env w) w2) = 1"
    using loop_body_fcloses [of "deliver env w" env fd d b count n] Abort(3) by simp
  ultimately show ?case by simp
qed simp_all

lemma send_loop_wraps:
  "send_loop env fd d src count n w = (res, w') \<Longrightarrow> 0 \<le> count \<Longrightarrow> count < 80 \<Longrightarrow>
     \<exists>cf. 0 \<le> cf \<and> cf < 80 \<and>
       count + int (length (forwarded (new_events w w'))) =
         80 * int (wraps (new_events w w')) + cf \<and>
       (\<forall>c' n' rest. res = Some (c', n', rest) \<longrightarrow> c' = cf)"
proof (induction rule: send_loop_induct)
  case (Step b bs count n w count' n' w2 res w3)
  have ev: "new_events w w3 =
          new_events w (deliver env w) @ new_events (deliver env w) w2 @ new_events w2 w3"
    using step_events [OF Step.hyps(3) send_loop_trace [OF Step.hyps(4)]] .
  obtain c1 where c1: "0 \<le> c1" "c1 < 80"
      "count + int (length (forwarded (new_events (deliver env w) w2))) =
         80 * int (wraps (new_events (deliver env w) w2)) + c1"
      "count' = c1"
    using loop_body_wraps [OF Step.prems Step.hyps(3)] by auto
  obtain cf where cf: "0 \<le> cf" "cf < 80"
      "count' + int (length (forwarded (new_events w2 w3))) =
         80 * int (wraps (new_events w2 w3)) + cf"
      "\<forall>c' n' rest. res = Some (c', n', rest) \<longrightarrow> c' = cf"
    using Step.IH c1 by auto
  show ?case
    using c1 cf by (intro exI [of _ cf]) (simp add: ev)
next
  case (Abort b bs count n w w2)
  have ev: "new_events w w2 =
          new_events w (deliver env w) @ new_events (deliver env w) w2 @ new_events w2 w2"
    using step_events [OF Abort(3), of w2] by simp
  show ?case
    using loop_body_wraps [OF Abort.prems Abort(3)] by (simp add: ev)
next
  case (Eof count n w)
  then show ?case by (intro exI [of _ count]) simp
next
  case (Stop src count n w)
  then show ?case by (intro exI [of _ count]) simp
next
  case (Byte255 bs count n w)
  then show ?case by (intro exI [of _ count]) simp
qed

lemma send_loop_fields:
  "send_loop env fd d src count n w = (res, w') \<Longrightarrow>
     fds w' = fds w \<and> fd_global w' = fd_global w \<and> (keep_running w = 0 \<longrightarrow> keep_running w' = 0)"
proof (induction rule: send_loop_induct)
  case (Step b bs count n w count' n' w2 res w3)
  have "fds w2 = fds w \<and> fd_global w2 = fd_global w \<and> keep_running w2 = keep_running (deliver env w)"
    using loop_body_fields [of env fd d b count n "deliver env w"] Step.hyps(3) by simp
  with Step.IH show ?case by simp
next
  case (Abort b bs count n w w2)
  have "fds w2 = fds w \<and> fd_global w2 = fd_global w \<and> keep_running w2 = keep_running (deliver env w)"
    using loop_body_fields [of env fd d b count n "deliver env w"] Abort(3) by simp
  then show ?case by simp
qed simp_all



subsection \<open>The line wrap\<close>

declare wrapped.simps [simp del]

lemma wrapped_from_0: "wrapped_from 0 xs = wrapped xs"
  by (subst wrapped.simps) (simp add: wrapped_from_def)

lemma wrapped_from_Nil: "c < 80 \<Longrightarrow> wrapped_from c [] = []"
  by (simp add: wrapped_from_def)

lemma wrapped_from_Cons:
  "c < 80 \<Longrightarrow> wrapped_from c (x # xs) =
     (if c + 1 = 80 then [x, 13, 10] @ wrapped_from 0 xs else x # wrapped_from (c + 1) xs)"
proof (cases "c + 1 = 80")
  case True
  then have "wrapped_from c (x # xs) = [x, 13, 10] @ wrapped xs"
    by (simp add: wrapped_from_def)
  then show ?thesis
    using True by (simp add: wrapped_from_0)
next
  case False
  assume "c < 80"
  with False obtain k where k: "80 - c = Suc k" "80 - (c + 1) = k"
    by (cases "80 - c") auto
  then show ?thesis
    using False by (simp add: wrapped_from_def)
qed

lemma deliver_output [simp]: "device_bytes (new_events w (deliver env w)) = []"
proof -
  have "\<forall>e \<in> set evs. is_log e \<Longrightarrow> device_bytes evs = []" for evs
    by (induction evs) (auto elim: is_log.elims)
  then show ?thesis
    using deliver_logs [of env w] by blast
qed

lemma loop_body_output:
  assumes "0 \<le> count" "count < 80" "loop_body env fd d c count n w = (Some (c', n'), w')"
  shows "device_bytes (new_events w w') =
           (if sint c = 10 then [] else if count + 1 = 80 then [c, 13, 10] else [c]) \<and>
         c' = (if sint c = 10 then count else if count + 1 = 80 then 0 else count + 1)"
  using assms
  by (auto simp: loop_body_defs split: option.splits if_splits)

lemma send_loop_output:
  "send_loop env fd d src count n w = (res, w') \<Longrightarrow> 0 \<le> count \<Longrightarrow> count < 80 \<Longrightarrow>
   res = Some (c', n', rest) \<Longrightarrow>
     device_bytes (new_events w w') = wrapped_from (nat count) (forwarded (new_events w w'))"
proof (induction rule: send_loop_induct)
  case (Step b bs count n w count' k w2 res w3)
  have ev: "new_events w w3 =
          new_events w (deliver env w) @ new_events (deliver env w) w2 @ new_events w2 w3"
    using step_events [OF Step.hyps(3) send_loop_trace [OF Step.hyps(4)]] .
  note out = loop_body_output [OF Step.prems(1,2) Step.hyps(3)]
  note fw = loop_body_forwarded [OF Step.hyps(3)]
  have c: "0 \<le> count'" "count' < 80"
    using out Step.prems(1,2) by (auto split: if_splits)
  have ih: "device_bytes (new_events w2 w3) = wrapped_from (nat count') (forwarded (new_events w2 w3))"
    using Step.IH c Step.prems(3) by simp
  show ?case
  proof (cases "sint b = 10")
    case True
    with out fw ih show ?thesis by (simp add: ev)
  next
    case False
    have n: "nat count < 80" "nat (count + 1) = nat count + 1"
      using Step.prems(1,2) by simp_all
    show ?thesis
    proof (cases "count + 1 = 80")
      case True
      then have "nat count + 1 = 80" using n by simp
      with True False out fw ih n show ?thesis
        by (simp add: ev wrapped_from_Cons)
    next
      case ne: False
      then have "nat count + 1 \<noteq> 80" using n Step.prems(1) by linarith
      with ne False out fw ih n show ?thesis
        by (simp add: ev wrapped_from_Cons)
    qed
  qed
qed (simp_all add: wrapped_from_Nil)

text \<open>
  C4.  In the while loop as send_file_to_minitel starts it (cursor 0), whatever
  the environment does and however the loop ends, the number of CR LF writes
  is the number of forwarded bytes divided by 80, rounded down.  When the loop
  ends without an early return (end of file or keep_running found 0), the
  cursor it ends with is the number of forwarded bytes modulo 80, so it lies in
  [0, 80), and the bytes that reached the device are the forwarded bytes with
  a CR LF after every 80 of them and none after the last, shorter line.  One
  turn of the loop body takes a cursor in [0, 80) to a cursor in [0, 80).
\<close>

theorem line_wrap_every_80:
  assumes "send_loop env fd d src 0 n w = (res, w')"
  shows "wraps (new_events w w') = length (forwarded (new_events w w')) div 80 \<and>
         (\<forall>c' n' rest. res = Some (c', n', rest) \<longrightarrow>
            0 \<le> c' \<and> c' < 80 \<and> c' = int (length (forwarded (new_events w w')) mod 80) \<and>
            device_bytes (new_events w w') = wrapped (forwarded (new_events w w'))) \<and>
         (\<forall>b count k c' k' v v'.
            0 \<le> count \<and> count < 80 \<and> loop_body env fd d b count k v = (Some (c', k'), v') \<longrightarrow>
            0 \<le> c' \<and> c' < 80)"
proof -
  obtain cf where cf: "0 \<le> cf" "cf < 80"
      "int (length (forwarded (new_events w w'))) = 80 * int (wraps (new_events w w')) + cf"
      "\<forall>c' n' rest. res = Some (c', n', rest) \<longrightarrow> c' = cf"
    using send_loop_wraps [OF assms] by auto
  have "int (wraps (new_events w w')) = int (length (forwarded (new_events w w'))) div 80"
    using cf(1-3) by simp
  then have 1: "wraps (new_events w w') = length (forwarded (new_events w w')) div 80"
    by (simp add: zdiv_int [symmetric] del: of_nat_div)
  have "cf = int (length (forwarded (new_events w w'))) mod 80"
    using cf(1-3) by simp
  then have 2: "cf = int (length (forwarded (new_events w w')) mod 80)"
    by (simp add: zmod_int)
  have 3: "device_bytes (new_events w w') = wrapped (forwarded (new_events w w'))"
    if "res = Some (c', n', rest)" for c' n' rest
    using send_loop_output [OF assms _ _ that] by (simp add: wrapped_from_0)
  have 4: "0 \<le> c' \<and> c' < 80"
    if "0 \<le> count" "count < 80" "loop_body env fd d b count k v = (Some (c', k'), v')"
    for b count k c' k' v v'
    using loop_body_wraps [OF that] by auto
  have 5: "\<forall>c' n' rest. res = Some (c', n', rest) \<longrightarrow>
            0 \<le> c' \<and> c' < 80 \<and> c' = int (length (forwarded (new_events w w')) mod 80) \<and>
            device_bytes (new_events w w') = wrapped (forwarded (new_events w w'))"
    using 2 3 cf(1,2,4) by blast
  have 6: "\<forall>b count k c' k' v v'.
            0 \<le> count \<and> count < 80 \<and> loop_body env fd d b count k v = (Some (c', k'), v') \<longrightarrow>
            0 \<le> c' \<and> c' < 80"
    using 4 by blast
  show ?thesis
    using 1 5 6 by (intro conjI)
qed

theorem line_wrap_every_80_witness:
  "fst (send_loop (env_ok []) 3 0 (replicate 81 65) 0 0 world3) = Some (1, 81, []) \<and>
   length (forwarded (new_events world3
      (snd (send_loop (env_ok []) 3 0 (replicate 81 65) 0 0 world3)))) = 81 \<and>
   wraps (new_events world3
      (snd (send_loop (env_ok []) 3 0 (replicate 81 65) 0 0 world3))) = 81 div 80 \<and>
   device_bytes (new_events world3
      (snd (send_loop (env_ok []) 3 0 (replicate 81 65) 0 0 world3))) =
     wrapped (forwarded (new_events world3
      (snd (send_loop (env_ok []) 3 0 (replicate 81 65) 0 0 world3)))) \<and>
   fst (loop_body (env_ok []) 3 0 65 79 5 world3) = Some (0, 6)"
proof -
  have res: "fst (send_loop (env_ok []) 3 0 (replicate 81 65) 0 0 world3) = Some (1, 81, [])"
    by code_simp
  have len: "length (forwarded (new_events world3
      (snd (send_loop (env_ok []) 3 0 (replicate 81 65) 0 0 world3)))) = 81"
    by code_simp
  have body: "fst (loop_body (env_ok []) 3 0 65 79 5 world3) = Some (0, 6)"
    by code_simp
  have run: "send_loop (env_ok []) 3 0 (replicate 81 65) 0 0 world3 =
     (Some (1, 81, []), snd (send_loop (env_ok []) 3 0 (replicate 81 65) 0 0 world3))"
    using res by (simp add: prod_eq_iff)
  show ?thesis
    using line_wrap_every_80 [OF run] res len body by simp
qed

subsection \<open>What the loop forwards\<close>

lemma sint_eq_10: "(sint (b :: 8 word) = 10) = (b = 10)"
proof -
  have "sint (10 :: 8 word) = 10" by simp
  then show ?thesis
    using word_eq_iff_signed [where ?'a = int, of b 10] by simp
qed

lemma loop_body_ok:
  assumes "\<forall>k. e_write env k = None" "fds w fd \<noteq> None" "0 \<le> fd"
  shows "\<exists>c' n' w'. loop_body env fd d b count n w = (Some (c', n'), w')"
  using assms
  by (auto simp: loop_body_def check_serial_connection_def sys_getfl_def sys_setfl_def
      sys_write_def Let_def split: option.splits)

text \<open>
  With a healthy link, no signal and a source without the byte 255, the loop
  reads the source to its end and forwards every byte of it except the line
  feeds, in the order of the source.
\<close>

lemma send_loop_forwards_all:
  assumes "\<forall>k. e_sigs env k = []" "\<forall>k. e_write env k = None" "0 \<le> fd"
  shows "255 \<notin> set src \<Longrightarrow> keep_running w \<noteq> 0 \<Longrightarrow> fds w fd \<noteq> None \<Longrightarrow>
     \<exists>c k w'. send_loop env fd d src count n w = (Some (c, k, []), w') \<and>
       forwarded (new_events w w') = filter (\<lambda>b. b \<noteq> 10) src"
proof (induction src arbitrary: count n w)
  case Nil
  have "new_events w (deliver env w) = []"
    using assms(1) by (simp add: deliver_quiet new_events_def)
  then show ?case
    by (simp add: send_loop_Nil)
next
  case (Cons b bs)
  let ?w1 = "deliver env w"
  have w1: "?w1 = w\<lparr>n_poll := n_poll w + 1\<rparr>"
    using assms(1) by (simp add: deliver_quiet)
  have up: "keep_running ?w1 \<noteq> 0" and op: "fds ?w1 fd \<noteq> None"
    using Cons.prems by (simp_all add: w1)
  obtain c' n' w2 where body: "loop_body env fd d b count n ?w1 = (Some (c', n'), w2)"
    using loop_body_ok [OF assms(2) op assms(3)] by blast
  have w2: "keep_running w2 \<noteq> 0" "fds w2 fd \<noteq> None"
    using loop_body_fields [of env fd d b count n ?w1] body up op by simp_all
  obtain c k w3 where rest: "send_loop env fd d bs c' n' w2 = (Some (c, k, []), w3)"
    and fw: "forwarded (new_events w2 w3) = filter (\<lambda>b. b \<noteq> 10) bs"
    using Cons.IH [OF _ w2, of c' n'] Cons.prems(1) by auto
  have run: "send_loop env fd d (b # bs) count n w = (Some (c, k, []), w3)"
    using up body rest Cons.prems(1) by (simp add: send_loop_Cons)
  have "new_events w w3 =
      new_events w ?w1 @ new_events ?w1 w2 @ new_events w2 w3"
    using step_events [OF body send_loop_trace [OF rest]] .
  then have "forwarded (new_events w w3) = filter (\<lambda>b. b \<noteq> 10) (b # bs)"
    using loop_body_forwarded [OF body] fw by (simp add: sint_eq_10)
  with run show ?case by blast
qed

text \<open>
  C1 fails on the code: the value of fgetc is stored in a plain \<open>char\<close>
  before it is compared with EOF, so the byte 255 of a source is taken for the
  end of the file.  With the source 65, 255, 66 and a healthy link the loop
  ends at the second byte with the third one unread, the call returns 0 as
  after a complete send, and one byte has been forwarded where the claim
  requires three.
\<close>

theorem send_loop_takes_byte_255_for_EOF:
  "fst (send_loop (env_ok []) 3 0 [65, 255, 66] 0 0 world3) = Some (1, 1, [66]) \<and>
   forwarded (new_events world3
      (snd (send_loop (env_ok []) 3 0 [65, 255, 66] 0 0 world3))) = [65] \<and>
   filter (\<lambda>b. b \<noteq> 10) [65, 255, 66 :: byte] = [65, 255, 66] \<and>
   fst (send_file_to_minitel (env_ok [65, 255, 66]) 3 ''text.txt'' 0 world3) = 0 \<and>
   forwarded (stream_events (new_events world3
      (snd (send_file_to_minitel (env_ok [65, 255, 66]) 3 ''text.txt'' 0 world3)))) = [65]"
  by code_simp

subsection \<open>After the loop\<close>

lemma skip_lines_induct [consumes 1, case_names Done Stop Fail Step]:
  assumes run: "skip_lines env fd i w = (res, w')"
    and Done: "\<And>i w. \<not> i < LINES_SKIP \<Longrightarrow> P i w True w"
    and Stop: "\<And>i w. i < LINES_SKIP \<Longrightarrow> keep_running (deliver env w) = 0 \<Longrightarrow>
                 P i w True (deliver env w)"
    and Fail: "\<And>i w r w2. i < LINES_SKIP \<Longrightarrow> keep_running (deliver env w) \<noteq> 0 \<Longrightarrow>
                 sys_write env fd [10] (deliver env w) = (r, w2) \<Longrightarrow> r < 0 \<Longrightarrow>
                 P i w False (log_message ERROR SkipLinesError w2)"
    and Step: "\<And>i w r w2 res w3. i < LINES_SKIP \<Longrightarrow> keep_running (deliver env w) \<noteq> 0 \<Longrightarrow>
                 sys_write env fd [10] (deliver env w) = (r, w2) \<Longrightarrow> \<not> r < 0 \<Longrightarrow>
                 skip_lines env fd (i + 1) w2 = (res, w3) \<Longrightarrow> P (i + 1) w2 res w3 \<Longrightarrow>
                 P i w res w3"
  shows "P i w res w'"
  using assms
proof (induction env fd i w arbitrary: res w' rule: skip_lines.induct)
  case (1 env fd i w)
  note run = "1.prems"(1) and Done = "1.prems"(2) and Stop = "1.prems"(3)
    and Fail = "1.prems"(4) and Step = "1.prems"(5)
  show ?case
  proof (cases "i < LINES_SKIP")
    case False
    with run show ?thesis
      using Done [OF False] by (subst (asm) skip_lines.simps) auto
  next
    case lt: True
    show ?thesis
    proof (cases "keep_running (deliver env w) = 0")
      case True
      with lt run show ?thesis
        using Stop [OF lt True] by (subst (asm) skip_lines.simps) (auto simp: Let_def)
    next
      case up: False
      obtain r w2 where wr: "sys_write env fd [10] (deliver env w) = (r, w2)"
        by (cases "sys_write env fd [10] (deliver env w)")
      show ?thesis
      proof (cases "r < 0")
        case True
        with lt up wr run show ?thesis
          using Fail [OF lt up wr True] by (subst (asm) skip_lines.simps) (auto simp: Let_def)
      next
        case False
        with lt up wr run have rest: "skip_lines env fd (i + 1) w2 = (res, w')"
          by (subst (asm) skip_lines.simps) (auto simp: Let_def)
        have "P (i + 1) w2 res w'"
          using "1.IH" [OF lt refl up wr [symmetric] refl False rest] Done Stop Fail Step
          by blast
        then show ?thesis
          by (rule Step [OF lt up wr False rest])
      qed
    qed
  qed
qed

lemma write_snd:
  "sys_write env fd bs w = (r, w2) \<Longrightarrow>
     trace w2 = trace w @ [Write fd bs r] \<and> fds w2 = fds w \<and> fd_global w2 = fd_global w \<and>
     keep_running w2 = keep_running w \<and> reconnect_needed w2 = reconnect_needed w"
  using sys_write_fields [of env fd bs w] by simp

lemma skip_lines_trace:
  "skip_lines env fd i w = (res, w') \<Longrightarrow> trace w' = trace w @ new_events w w'"
proof (induction rule: skip_lines_induct)
  case (Step i w r w2 res w3)
  have "trace w3 =
      trace w @ (new_events w (deliver env w) @ [Write fd [10] r] @ new_events w2 w3)"
    using Step.IH deliver_trace [of env w] write_snd [OF Step.hyps(3)] by simp
  then show ?case
    using new_events_append by metis
next
  case (Fail i w r w2)
  have "trace (log_message ERROR SkipLinesError w2) =
      trace w @ (new_events w (deliver env w) @ [Write fd [10] r, Log ERROR SkipLinesError])"
    using deliver_trace [of env w] write_snd [OF Fail(3)] by simp
  then show ?case
    using new_events_append by metis
next
  case (Stop i w)
  show ?case by (rule deliver_trace)
qed simp

lemma skip_lines_fields:
  "skip_lines env fd i w = (res, w') \<Longrightarrow>
     fds w' = fds w \<and> fd_global w' = fd_global w \<and>
     (keep_running w = 0 \<longrightarrow> keep_running w' = 0) \<and>
     fcloses (new_events w w') = 0"
proof (induction rule: skip_lines_induct)
  case (Step i w r w2 res w3)
  have "trace w3 =
      trace w @ (new_events w (deliver env w) @ [Write fd [10] r] @ new_events w2 w3)"
    using skip_lines_trace [OF Step.hyps(5)] deliver_trace [of env w]
      write_snd [OF Step.hyps(3)] by simp
  then have "new_events w w3 =
      new_events w (deliver env w) @ [Write fd [10] r] @ new_events w2 w3"
    by (rule new_events_append)
  then show ?case
    using Step.IH write_snd [OF Step.hyps(3)] by simp
next
  case (Fail i w r w2)
  have "trace (log_message ERROR SkipLinesError w2) =
      trace w @ (new_events w (deliver env w) @ [Write fd [10] r, Log ERROR SkipLinesError])"
    using deliver_trace [of env w] write_snd [OF Fail(3)] by simp
  then have "new_events w (log_message ERROR SkipLinesError w2) =
      new_events w (deliver env w) @ [Write fd [10] r, Log ERROR SkipLinesError]"
    by (rule new_events_append)
  then show ?case
    using write_snd [OF Fail(3)] by simp
qed simp_all

lemma skip_lines_stopped:
  "keep_running w = 0 \<Longrightarrow>
     skip_lines env fd 0 w = (True, deliver env w)"
  by (subst skip_lines.simps) (simp add: LINES_SKIP_def Let_def)

lemma send_finish_cases:
  "send_finish env fd n w =
     (if fst (sys_write env fd [13] w) < 0
      then (- 1, log_message ERROR CarriageReturnError (snd (sys_write env fd [13] w)))
      else if fst (skip_lines env fd 0 (snd (sys_write env fd [13] w)))
      then (0, log_message INFO (FileSent n)
                 (snd (skip_lines env fd 0 (snd (sys_write env fd [13] w)))))
      else (- 1, snd (skip_lines env fd 0 (snd (sys_write env fd [13] w)))))"
  by (simp add: send_finish_def split_beta Let_def split: bool.splits)

lemma send_finish_trace:
  "trace (snd (send_finish env fd n w)) = trace w @ new_events w (snd (send_finish env fd n w))"
proof -
  obtain r w1 where wr: "sys_write env fd [13] w = (r, w1)"
    by (cases "sys_write env fd [13] w")
  obtain ok w2 where sk: "skip_lines env fd 0 w1 = (ok, w2)"
    by (cases "skip_lines env fd 0 w1")
  have "trace w2 = trace w @ ([Write fd [13] r] @ new_events w1 w2)"
    using write_snd [OF wr] skip_lines_trace [OF sk] by simp
  then have "\<exists>evs. trace (snd (send_finish env fd n w)) = trace w @ evs"
    using write_snd [OF wr] wr sk by (auto simp: send_finish_cases)
  then show ?thesis
    using new_events_append by metis
qed

lemma send_finish_fields:
  "fds (snd (send_finish env fd n w)) = fds w \<and>
   fd_global (snd (send_finish env fd n w)) = fd_global w \<and>
   (keep_running w = 0 \<longrightarrow> keep_running (snd (send_finish env fd n w)) = 0) \<and>
   fcloses (new_events w (snd (send_finish env fd n w))) = 0 \<and>
   (fst (send_finish env fd n w) = 0 \<or> fst (send_finish env fd n w) = - 1) \<and>
   (fst (send_finish env fd n w) = 0 \<longrightarrow>
      last (new_events w (snd (send_finish env fd n w))) = Log INFO (FileSent n))"
proof -
  obtain r w1 where wr: "sys_write env fd [13] w = (r, w1)"
    by (cases "sys_write env fd [13] w")
  obtain ok w2 where sk: "skip_lines env fd 0 w1 = (ok, w2)"
    by (cases "skip_lines env fd 0 w1")
  have t2: "trace w2 = trace w @ ([Write fd [13] r] @ new_events w1 w2)"
    using write_snd [OF wr] skip_lines_trace [OF sk] by simp
  have a: "new_events w w2 = [Write fd [13] r] @ new_events w1 w2"
    using t2 by (rule new_events_append)
  have "trace (log_message INFO (FileSent n) w2) =
      trace w @ ([Write fd [13] r] @ new_events w1 w2 @ [Log INFO (FileSent n)])"
    using t2 by simp
  then have b: "new_events w (log_message INFO (FileSent n) w2) =
      [Write fd [13] r] @ new_events w1 w2 @ [Log INFO (FileSent n)]"
    by (rule new_events_append)
  have "trace (log_message ERROR CarriageReturnError w1) =
      trace w @ [Write fd [13] r, Log ERROR CarriageReturnError]"
    using write_snd [OF wr] by simp
  then have c: "new_events w (log_message ERROR CarriageReturnError w1) =
      [Write fd [13] r, Log ERROR CarriageReturnError]"
    by (rule new_events_append)
  show ?thesis
    using write_snd [OF wr] skip_lines_fields [OF sk] wr sk a b c
    by (auto simp: send_finish_cases)
qed

lemma send_finish_stopped:
  assumes "keep_running w = 0"
  shows "writes (new_events w (snd (send_finish env fd n w))) =
           [Write fd [13] (fst (sys_write env fd [13] w))] \<and>
         fst (send_finish env fd n w) = (if fst (sys_write env fd [13] w) < 0 then - 1 else 0)"
proof -
  obtain r w1 where wr: "sys_write env fd [13] w = (r, w1)"
    by (cases "sys_write env fd [13] w")
  have k1: "keep_running w1 = 0"
    using write_snd [OF wr] assms by simp
  have sk: "skip_lines env fd 0 w1 = (True, deliver env w1)"
    using k1 by (rule skip_lines_stopped)
  have "trace (log_message INFO (FileSent n) (deliver env w1)) =
      trace w @ ([Write fd [13] r] @ new_events w1 (deliver env w1) @ [Log INFO (FileSent n)])"
    using write_snd [OF wr] deliver_trace [of env w1] by simp
  then have b: "new_events w (log_message INFO (FileSent n) (deliver env w1)) =
      [Write fd [13] r] @ new_events w1 (deliver env w1) @ [Log INFO (FileSent n)]"
    by (rule new_events_append)
  have "trace (log_message ERROR CarriageReturnError w1) =
      trace w @ [Write fd [13] r, Log ERROR CarriageReturnError]"
    using write_snd [OF wr] by simp
  then have c: "new_events w (log_message ERROR CarriageReturnError w1) =
      [Write fd [13] r, Log ERROR CarriageReturnError]"
    by (rule new_events_append)
  show ?thesis
    using wr sk b c by (auto simp: send_finish_cases)
qed

subsection \<open>The whole call\<close>

lemma check_no_fopen:
  "\<forall>e \<in> set (new_events w (snd (check_serial_connection env fd w))). \<not> is_fopen e"
  by (auto simp: check_serial_connection_def sys_getfl_def sys_setfl_def sys_write_def
      Let_def new_events_append split: option.splits)



lemma send_stream_None:
  "send_loop env fd d src count n w = (None, w1) \<Longrightarrow>
     send_stream env fd d src count n w = (- 1, w1)"
  by (simp add: send_stream_def)

lemma send_stream_Some:
  assumes "send_loop env fd d src count n w = (Some (c', n', rest), w1)"
  shows "send_stream env fd d src count n w = send_finish env fd n' (sys_fclose w1)"
    and "new_events w (snd (send_stream env fd d src count n w)) =
           new_events w w1 @ [Fclose] @
           new_events (sys_fclose w1) (snd (send_finish env fd n' (sys_fclose w1)))"
proof -
  show eq: "send_stream env fd d src count n w = send_finish env fd n' (sys_fclose w1)"
    using assms by (simp add: send_stream_def)
  have "trace (snd (send_finish env fd n' (sys_fclose w1))) =
      trace w @ (new_events w w1 @ [Fclose] @
           new_events (sys_fclose w1) (snd (send_finish env fd n' (sys_fclose w1))))"
    using send_loop_trace [OF assms] send_finish_trace [of env fd n' "sys_fclose w1"]
    by simp
  then show "new_events w (snd (send_stream env fd d src count n w)) =
           new_events w w1 @ [Fclose] @
           new_events (sys_fclose w1) (snd (send_finish env fd n' (sys_fclose w1)))"
    unfolding eq by (rule new_events_append)
qed

lemma send_stream_trace:
  "trace (snd (send_stream env fd d src count n w)) =
     trace w @ new_events w (snd (send_stream env fd d src count n w))"
proof -
  obtain res w1 where run: "send_loop env fd d src count n w = (res, w1)"
    by (cases "send_loop env fd d src count n w")
  show ?thesis
  proof (cases res)
    case None
    then show ?thesis
      using run send_loop_trace [OF run] by (simp add: send_stream_None)
  next
    case (Some x)
    obtain c' n' rest where x: "x = (c', n', rest)" by (cases x)
    have run': "send_loop env fd d src count n w = (Some (c', n', rest), w1)"
      using run Some x by simp
    have "trace (snd (send_finish env fd n' (sys_fclose w1))) =
      trace w @ (new_events w w1 @ [Fclose] @
           new_events (sys_fclose w1) (snd (send_finish env fd n' (sys_fclose w1))))"
      using send_loop_trace [OF run'] send_finish_trace [of env fd n' "sys_fclose w1"]
      by simp
    then show ?thesis
      using send_stream_Some [OF run'] by simp
  qed
qed

lemma send_stream_fcloses:
  "fcloses (new_events w (snd (send_stream env fd d src count n w))) = 1"
proof -
  obtain res w1 where run: "send_loop env fd d src count n w = (res, w1)"
    by (cases "send_loop env fd d src count n w")
  show ?thesis
  proof (cases res)
    case None
    then show ?thesis
      using run send_loop_fcloses [OF run] by (simp add: send_stream_None)
  next
    case (Some x)
    obtain c' n' rest where x: "x = (c', n', rest)" by (cases x)
    have run': "send_loop env fd d src count n w = (Some (c', n', rest), w1)"
      using run Some x by simp
    show ?thesis
      using send_stream_Some(2) [OF run'] send_loop_fcloses [OF run']
        send_finish_fields [of env fd n' "sys_fclose w1"]
      by simp
  qed
qed

lemma send_file_cases:
  "send_file_to_minitel env fd name d w =
     (if fd < 0 then (- 1, log_message ERROR NotConnected w)
      else if fst (check_serial_connection env fd w) = 0
      then (- 1, log_message ERROR NotConnected (snd (check_serial_connection env fd w)))
      else (case fst (sys_fopen env name (snd (check_serial_connection env fd w))) of
              None \<Rightarrow>
                (- 1, log_message ERROR
                        (OpenError name
                           (errno (snd (sys_fopen env name
                                          (snd (check_serial_connection env fd w))))))
                        (snd (sys_fopen env name (snd (check_serial_connection env fd w)))))
            | Some src \<Rightarrow>
                send_stream env fd d src 0 0
                  (snd (sys_fopen env name (snd (check_serial_connection env fd w))))))"
  by (simp add: send_file_to_minitel_def split_beta Let_def split: option.splits)

lemma send_file_events:
  "new_events w (snd (send_file_to_minitel env fd name d w)) =
     (if fd < 0 then [Log ERROR NotConnected]
      else new_events w (snd (check_serial_connection env fd w)) @
        (if fst (check_serial_connection env fd w) = 0 then [Log ERROR NotConnected]
         else (case fst (sys_fopen env name (snd (check_serial_connection env fd w))) of
              None \<Rightarrow>
                [Fopen name False,
                 Log ERROR (OpenError name
                           (errno (snd (sys_fopen env name
                                          (snd (check_serial_connection env fd w))))))]
            | Some src \<Rightarrow>
                [Fopen name True] @
                new_events (snd (sys_fopen env name (snd (check_serial_connection env fd w))))
                  (snd (send_stream env fd d src 0 0
                     (snd (sys_fopen env name (snd (check_serial_connection env fd w)))))))))"
proof -
  let ?w1 = "snd (check_serial_connection env fd w)"
  let ?w2 = "snd (sys_fopen env name ?w1)"
  have t1: "trace ?w1 = trace w @ new_events w ?w1"
    by (rule check_trace)
  show ?thesis
  proof (cases "fd < 0")
    case True
    then show ?thesis
      by (simp add: send_file_cases new_events_append)
  next
    case fd: False
    show ?thesis
    proof (cases "fst (check_serial_connection env fd w) = 0")
      case True
      have "trace (log_message ERROR NotConnected ?w1) =
          trace w @ (new_events w ?w1 @ [Log ERROR NotConnected])"
        using t1 by simp
      then have "new_events w (log_message ERROR NotConnected ?w1) =
          new_events w ?w1 @ [Log ERROR NotConnected]"
        by (rule new_events_append)
      with fd True show ?thesis
        by (simp add: send_file_cases)
    next
      case alive: False
      show ?thesis
      proof (cases "fst (sys_fopen env name ?w1)")
        case None
        have "trace (log_message ERROR (OpenError name (errno ?w2)) ?w2) =
          trace w @ (new_events w ?w1 @
             [Fopen name False, Log ERROR (OpenError name (errno ?w2))])"
          using t1 None by simp
        then have "new_events w (log_message ERROR (OpenError name (errno ?w2)) ?w2) =
          new_events w ?w1 @ [Fopen name False, Log ERROR (OpenError name (errno ?w2))]"
          by (rule new_events_append)
        with fd alive None show ?thesis
          by (simp add: send_file_cases)
      next
        case (Some src)
        have "trace (snd (send_stream env fd d src 0 0 ?w2)) =
          trace w @ (new_events w ?w1 @ [Fopen name True] @
            new_events ?w2 (snd (send_stream env fd d src 0 0 ?w2)))"
          using t1 Some send_stream_trace [of env fd d src 0 0 ?w2] by simp
        then have "new_events w (snd (send_stream env fd d src 0 0 ?w2)) =
          new_events w ?w1 @ [Fopen name True] @
            new_events ?w2 (snd (send_stream env fd d src 0 0 ?w2))"
          by (rule new_events_append)
        with fd alive Some show ?thesis
          by (simp add: send_file_cases)
      qed
    qed
  qed
qed


text \<open>
  C9.  In the events of one call of send_file_to_minitel there is exactly one
  fclose when the fopen of the source gave a stream, whichever way the call
  ends (the probe inside the loop fails, a write fails, keep_running is
  found 0, or the end of the file is reached), and none when there was no
  stream to close.  The call always returns, so the fclose comes before the
  return.
\<close>

theorem send_file_closes_source_once:
  "fcloses (new_events w (snd (send_file_to_minitel env fd name d w))) =
     (if Fopen name True \<in> set (new_events w (snd (send_file_to_minitel env fd name d w)))
      then 1 else 0)"
  using check_no_fopen [of w env fd] send_stream_fcloses
  by (auto simp: send_file_events split: option.splits)

subsection \<open>The value of the call\<close>


lemma logs_no_failure: "\<forall>e \<in> set evs. is_log e \<Longrightarrow> \<not> failure_in env k evs"
  by (induction evs) (auto elim: is_log.elims)

lemma deliver_no_failure [simp]: "\<not> failure_in env k (new_events w (deliver env' w))"
  using deliver_logs [of env' w] logs_no_failure by blast


















subsection \<open>The two flags\<close>

lemma flags_kept_refl [simp]: "flags_kept w w"
  by (simp add: flags_kept_def)

lemma flags_kept_trans: "flags_kept w w1 \<Longrightarrow> flags_kept w1 w2 \<Longrightarrow> flags_kept w w2"
  by (auto simp: flags_kept_def)

lemma flags_keptI:
  "keep_running w' = keep_running w \<Longrightarrow> reconnect_needed w' = reconnect_needed w \<Longrightarrow>
     flags_kept w w'"
  by (simp add: flags_kept_def)

lemma signal_handler_flags: "flags_kept w (signal_handler s w)"
  by (simp add: flags_kept_def signal_handler_def)

lemma handlers_flags: "flags_kept w (foldl (\<lambda>v s. signal_handler s v) w sigs)"
proof (induction sigs arbitrary: w)
  case Nil
  show ?case by simp
next
  case (Cons s sigs)
  show ?case
    using flags_kept_trans [OF signal_handler_flags Cons.IH] by simp
qed

lemma deliver_flags: "flags_kept w (deliver env w)"
  using handlers_flags [of "w\<lparr>n_poll := n_poll w + 1\<rparr>" "e_sigs env (n_poll w)"]
  by (simp add: deliver_def flags_kept_def)

lemma send_loop_flags:
  "send_loop env fd d src count n w = (res, w') \<Longrightarrow> flags_kept w w'"
proof (induction rule: send_loop_induct)
  case (Step b bs count n w count' n' w2 res w3)
  have "flags_kept (deliver env w) w2"
    using loop_body_fields [of env fd d b count n "deliver env w"] Step.hyps(3)
    by (simp add: flags_keptI)
  then show ?case
    using deliver_flags [of w env] Step.IH by (blast intro: flags_kept_trans)
next
  case (Abort b bs count n w w2)
  have "flags_kept (deliver env w) w2"
    using loop_body_fields [of env fd d b count n "deliver env w"] Abort(3)
    by (simp add: flags_keptI)
  then show ?case
    using deliver_flags [of w env] by (blast intro: flags_kept_trans)
qed (simp_all add: deliver_flags)

lemma skip_lines_flags:
  "skip_lines env fd i w = (res, w') \<Longrightarrow> flags_kept w w'"
proof (induction rule: skip_lines_induct)
  case (Step i w r w2 res w3)
  have "flags_kept (deliver env w) w2"
    using write_snd [OF Step.hyps(3)] by (simp add: flags_keptI)
  then show ?case
    using deliver_flags [of w env] Step.IH by (blast intro: flags_kept_trans)
next
  case (Fail i w r w2)
  have "flags_kept (deliver env w) (log_message ERROR SkipLinesError w2)"
    using write_snd [OF Fail(3)] by (simp add: flags_keptI)
  then show ?case
    using deliver_flags [of w env] by (blast intro: flags_kept_trans)
qed (simp_all add: deliver_flags)

lemma send_finish_flags: "flags_kept w (snd (send_finish env fd n w))"
proof -
  obtain r w1 where wr: "sys_write env fd [13] w = (r, w1)"
    by (cases "sys_write env fd [13] w")
  obtain ok w2 where sk: "skip_lines env fd 0 w1 = (ok, w2)"
    by (cases "skip_lines env fd 0 w1")
  have 1: "flags_kept w w1"
    using write_snd [OF wr] by (simp add: flags_keptI)
  have 2: "flags_kept w w2"
    using 1 skip_lines_flags [OF sk] by (rule flags_kept_trans)
  have 3: "flags_kept w (log_message l m w2)" for l m
    using 2 by (simp add: flags_kept_def)
  have 4: "flags_kept w (log_message l m w1)" for l m
    using 1 by (simp add: flags_kept_def)
  show ?thesis
    using wr sk 2 3 4 by (auto simp: send_finish_cases)
qed

lemma send_stream_flags: "flags_kept w (snd (send_stream env fd d src count n w))"
proof -
  obtain res w1 where run: "send_loop env fd d src count n w = (res, w1)"
    by (cases "send_loop env fd d src count n w")
  have 1: "flags_kept w w1"
    using run by (rule send_loop_flags)
  show ?thesis
  proof (cases res)
    case None
    with run 1 show ?thesis by (simp add: send_stream_None)
  next
    case (Some x)
    obtain c' n' rest where x: "x = (c', n', rest)" by (cases x)
    have run': "send_loop env fd d src count n w = (Some (c', n', rest), w1)"
      using run Some x by simp
    have "flags_kept w (sys_fclose w1)"
      using 1 by (simp add: flags_kept_def)
    then show ?thesis
      using send_finish_flags [of "sys_fclose w1" env fd n'] send_stream_Some(1) [OF run']
      by (auto intro: flags_kept_trans)
  qed
qed

lemma send_file_flags: "flags_kept w (snd (send_file_to_minitel env fd name d w))"
proof -
  let ?w1 = "snd (check_serial_connection env fd w)"
  let ?w2 = "snd (sys_fopen env name ?w1)"
  have 2: "flags_kept w ?w2"
    by (simp add: flags_keptI)
  have "flags_kept w (snd (send_stream env fd d src 0 0 ?w2))" for src
    using 2 send_stream_flags by (rule flags_kept_trans)
  then show ?thesis
    by (auto simp: send_file_cases flags_keptI split: option.splits)
qed

lemma send_file_fields:
  "fds (snd (send_file_to_minitel env fd name d w)) = fds w \<and>
   fd_global (snd (send_file_to_minitel env fd name d w)) = fd_global w"
proof -
  let ?w1 = "snd (check_serial_connection env fd w)"
  let ?w2 = "snd (sys_fopen env name ?w1)"
  have "fds (snd (send_stream env fd d src 0 0 ?w2)) = fds w \<and>
        fd_global (snd (send_stream env fd d src 0 0 ?w2)) = fd_global w" for src
  proof -
    obtain res w3 where run: "send_loop env fd d src 0 0 ?w2 = (res, w3)"
      by (cases "send_loop env fd d src 0 0 ?w2")
    show ?thesis
    proof (cases res)
      case None
      with run send_loop_fields [OF run] show ?thesis by (simp add: send_stream_None)
    next
      case (Some x)
      obtain c' n' rest where x: "x = (c', n', rest)" by (cases x)
      have run': "send_loop env fd d src 0 0 ?w2 = (Some (c', n', rest), w3)"
        using run Some x by simp
      show ?thesis
        using send_loop_fields [OF run'] send_finish_fields [of env fd n' "sys_fclose w3"]
          send_stream_Some(1) [OF run']
        by simp
    qed
  qed
  then show ?thesis
    by (auto simp: send_file_cases split: option.splits)
qed

section \<open>The supervisor\<close>

lemma sys_close_fields [simp]:
  "keep_running (snd (sys_close fd w)) = keep_running w"
  "reconnect_needed (snd (sys_close fd w)) = reconnect_needed w"
  "fd_global (snd (sys_close fd w)) = fd_global w"
  "trace (snd (sys_close fd w)) = trace w @ [Close fd]"
  by (simp_all add: sys_close_def split: option.splits)

lemma open_serial_port_flags [simp]:
  "keep_running (snd (open_serial_port env dev w)) = keep_running w"
  "reconnect_needed (snd (open_serial_port env dev w)) = reconnect_needed w"
  by (auto simp: open_serial_port_def sys_open_def sys_tcgetattr_def sys_tcsetattr_def
      sys_getfl_def sys_setfl_def sys_close_def log_message_def Let_def
      split: option.splits sum.splits)

lemma init_minitel_screen_flags [simp]:
  "keep_running (snd (init_minitel_screen env fd w)) = keep_running w"
  "reconnect_needed (snd (init_minitel_screen env fd w)) = reconnect_needed w"
  by (simp_all add: init_minitel_screen_def Let_def split_beta)

lemma sys_time_fields [simp]:
  "keep_running (snd (sys_time env w)) = keep_running w"
  "reconnect_needed (snd (sys_time env w)) = reconnect_needed w"
  "fd_global (snd (sys_time env w)) = fd_global w"
  "trace (snd (sys_time env w)) = trace w"
  by (simp_all add: sys_time_def)

subsection \<open>The steps\<close>

lemma outer_step_stopped:
  "keep_running (deliver env (world s)) = 0 \<Longrightarrow>
     outer_step env cfg s =
       s\<lparr>pc := Exited 0, world := log_message INFO Shutdown (deliver env (world s))\<rparr>"
  by (simp add: outer_step_def Let_def)

lemma outer_step_fails:
  "open_attempt_fails env cfg s \<Longrightarrow>
     retry_count (outer_step env cfg s) = retry_count s + 1 \<and>
     pc (outer_step env cfg s) =
       (if retry_count s + 1 \<ge> MAX_RETRIES then Exited 1 else OuterHead) \<and>
     reconnect_needed (world (outer_step env cfg s)) =
       reconnect_needed (deliver env (world s))"
  by (simp add: outer_step_def open_attempt_fails_def Let_def split_beta)

lemma outer_step_succeeds:
  "open_attempt_succeeds env cfg s \<Longrightarrow>
     retry_count (outer_step env cfg s) = 0 \<and> pc (outer_step env cfg s) = Init \<and>
     reconnect_needed (world (outer_step env cfg s)) = 0"
  by (simp add: outer_step_def open_attempt_succeeds_def Let_def split_beta)

lemma outer_step_cases:
  "keep_running (deliver env (world s)) = 0 \<or> open_attempt_fails env cfg s \<or>
   open_attempt_succeeds env cfg s"
  by (auto simp: open_attempt_fails_def open_attempt_succeeds_def)

lemma leave_stream_fields:
  "pc (leave_stream env s w) = OuterHead \<and>
   retry_count (leave_stream env s w) = retry_count s \<and>
   flags_kept w (world (leave_stream env s w))"
  using deliver_flags [of "if fd_global w \<ge> 0
                then log_message INFO PortClosed
                       ((snd (sys_close (fd_global w) w))\<lparr>fd_global := - 1\<rparr>)
                else w" env]
  by (auto simp: leave_stream_def Let_def flags_kept_def)

lemma init_step_fields:
  "(pc (init_step env cfg s) = OuterHead \<or> pc (init_step env cfg s) = InnerHead) \<and>
   retry_count (init_step env cfg s) = retry_count s \<and>
   reconnect_needed (world (init_step env cfg s)) = reconnect_needed (world s) \<and>
   keep_running (world (init_step env cfg s)) = keep_running (world s)"
  by (simp add: init_step_def Let_def split_beta)

lemma after_send_fields:
  "(pc (after_send env cfg s r w) = OuterHead \<or> pc (after_send env cfg s r w) = InnerHead) \<and>
   retry_count (after_send env cfg s r w) = retry_count s"
  using leave_stream_fields
  by (simp add: after_send_def)

lemma inner_step_fields:
  "(pc (inner_step env cfg s) = OuterHead \<or> pc (inner_step env cfg s) = InnerHead) \<and>
   retry_count (inner_step env cfg s) = retry_count s"
  using leave_stream_fields after_send_fields
  by (simp add: inner_step_def Let_def split_beta)

lemma inner_step_reconnect:
  assumes "reconnect_needed (world s) \<noteq> 0"
  shows "reconnect_needed (world (inner_step env cfg s)) \<noteq> 0"
proof -
  have "reconnect_needed (deliver env (world s)) \<noteq> 0"
    using deliver_flags [of "world s" env] assms by (simp add: flags_kept_def)
  then show ?thesis
    using leave_stream_fields [of env s "deliver env (world s)"]
    by (simp add: inner_step_def flags_kept_def)
qed

subsection \<open>The retry counter\<close>

lemma retry_count_bounds:
  "0 \<le> retry_count (main_run env cfg n) \<and> retry_count (main_run env cfg n) \<le> 5 \<and>
   ((\<forall>c. pc (main_run env cfg n) \<noteq> Exited c) \<longrightarrow> retry_count (main_run env cfg n) < 5)"
proof (induction n)
  case 0
  show ?case
    by (simp add: main_init_def Let_def split_beta)
next
  case (Suc n)
  let ?s = "main_run env cfg n"
  show ?case
  proof (cases "pc ?s")
    case OuterHead
    then have ex: "\<forall>c. pc ?s \<noteq> Exited c" by simp
    consider "keep_running (deliver env (world ?s)) = 0" | "open_attempt_fails env cfg ?s"
      | "open_attempt_succeeds env cfg ?s"
      using outer_step_cases by blast
    then show ?thesis
    proof cases
      case 1
      with Suc.IH OuterHead show ?thesis
        by (simp add: main_step_def outer_step_stopped)
    next
      case 2
      with Suc.IH ex OuterHead outer_step_fails [OF 2] show ?thesis
        by (auto simp: main_step_def MAX_RETRIES_def split: if_splits)
    next
      case 3
      with OuterHead outer_step_succeeds [OF 3] show ?thesis
        by (simp add: main_step_def)
    qed
  next
    case Init
    with Suc.IH init_step_fields [of env cfg ?s] show ?thesis
      by (auto simp: main_step_def)
  next
    case InnerHead
    with Suc.IH inner_step_fields [of env cfg ?s] show ?thesis
      by (auto simp: main_step_def)
  next
    case (Exited c)
    with Suc.IH show ?thesis
      by (simp add: main_step_def)
  qed
qed

lemma failed_opens_count:
  assumes "pc (main_run env cfg n) = OuterHead" "retry_count (main_run env cfg n) = 0"
    and "\<forall>k<5. open_attempt_fails env cfg (main_run env cfg (n + k))"
  shows "k < 5 \<Longrightarrow> pc (main_run env cfg (n + k)) = OuterHead \<and>
                   retry_count (main_run env cfg (n + k)) = int k"
proof (induction k)
  case 0
  with assms(1,2) show ?case by simp
next
  case (Suc k)
  then have k: "k < 5" by simp
  have f: "open_attempt_fails env cfg (main_run env cfg (n + k))"
    using assms(3) k by blast
  show ?case
    using Suc.IH [OF k] Suc.prems outer_step_fails [OF f]
    by (simp add: main_step_def MAX_RETRIES_def)
qed

lemma failed_opens_exit:
  assumes "pc (main_run env cfg n) = OuterHead" "retry_count (main_run env cfg n) = 0"
    and "\<forall>k<5. open_attempt_fails env cfg (main_run env cfg (n + k))"
  shows "pc (main_run env cfg (n + 5)) = Exited 1"
proof -
  have f: "open_attempt_fails env cfg (main_run env cfg (n + 4))"
    using assms(3) by simp
  have "n + 5 = Suc (n + 4)" by simp
  then have "main_run env cfg (n + 5) = main_step env cfg (main_run env cfg (n + 4))"
    by (simp only: main_run.simps)
  then show ?thesis
    using failed_opens_count [OF assms, of 4] outer_step_fails [OF f]
    by (simp add: main_step_def MAX_RETRIES_def)
qed

text \<open>
  C3.  main starts at the head of the outer loop with retry_count 0.  From any
  such point (the start of main, or the head of the loop after a successful
  open has set the counter to 0 again), five turns of the outer loop in which
  the loop goes on and open_serial_port fails count 1, 2, 3, 4 and leave main
  with the exit status 1 at the fifth.  A turn in which open_serial_port
  succeeds sets retry_count to 0.  At every point of every run retry_count
  lies between 0 and MAX_RETRIES.
\<close>

theorem retry_budget:
  "pc (main_run env cfg 0) = OuterHead \<and> retry_count (main_run env cfg 0) = 0 \<and>
   (pc (main_run env cfg n) = OuterHead \<and> retry_count (main_run env cfg n) = 0 \<and>
    (\<forall>k<5. open_attempt_fails env cfg (main_run env cfg (n + k))) \<longrightarrow>
      pc (main_run env cfg (n + 5)) = Exited 1 \<and>
      (\<forall>k<5. pc (main_run env cfg (n + k)) = OuterHead \<and>
              retry_count (main_run env cfg (n + k)) = int k)) \<and>
   (pc s = OuterHead \<and> open_attempt_succeeds env cfg s \<longrightarrow>
      retry_count (main_step env cfg s) = 0) \<and>
   0 \<le> retry_count (main_run env cfg m) \<and> retry_count (main_run env cfg m) \<le> MAX_RETRIES"
proof -
  have 1: "pc (main_run env cfg 0) = OuterHead \<and> retry_count (main_run env cfg 0) = 0"
    by (simp add: main_init_def Let_def split_beta)
  have 2: "pc (main_run env cfg (n + 5)) = Exited 1 \<and>
      (\<forall>k<5. pc (main_run env cfg (n + k)) = OuterHead \<and>
              retry_count (main_run env cfg (n + k)) = int k)"
    if "pc (main_run env cfg n) = OuterHead" "retry_count (main_run env cfg n) = 0"
      "\<forall>k<5. open_attempt_fails env cfg (main_run env cfg (n + k))"
    using failed_opens_exit [OF that] failed_opens_count [OF that] by blast
  have 3: "retry_count (main_step env cfg s) = 0"
    if "pc s = OuterHead" "open_attempt_succeeds env cfg s"
    using that outer_step_succeeds [of env cfg s] by (simp add: main_step_def)
  have 4: "0 \<le> retry_count (main_run env cfg m) \<and>
           retry_count (main_run env cfg m) \<le> MAX_RETRIES"
    using retry_count_bounds [of env cfg m] by (simp add: MAX_RETRIES_def)
  show ?thesis
    using 1 2 3 4 by blast
qed

theorem retry_budget_witness:
  "pc (main_run env_no_port cfg0 0) = OuterHead \<and>
   retry_count (main_run env_no_port cfg0 0) = 0 \<and>
   open_attempt_fails env_no_port cfg0 (main_run env_no_port cfg0 0) \<and>
   open_attempt_fails env_no_port cfg0 (main_run env_no_port cfg0 1) \<and>
   open_attempt_fails env_no_port cfg0 (main_run env_no_port cfg0 2) \<and>
   open_attempt_fails env_no_port cfg0 (main_run env_no_port cfg0 3) \<and>
   open_attempt_fails env_no_port cfg0 (main_run env_no_port cfg0 4) \<and>
   pc (main_run env_no_port cfg0 (0 + 5)) = Exited 1 \<and>
   retry_count (main_run env_no_port cfg0 (0 + 4)) = 4 \<and>
   pc (main_run (env_ok []) cfg0 0) = OuterHead \<and>
   open_attempt_succeeds (env_ok []) cfg0 (main_run (env_ok []) cfg0 0) \<and>
   retry_count (main_step (env_ok []) cfg0 (main_run (env_ok []) cfg0 0)) = 0"
proof -
  have f: "open_attempt_fails env_no_port cfg0 (main_run env_no_port cfg0 0)"
    "open_attempt_fails env_no_port cfg0 (main_run env_no_port cfg0 1)"
    "open_attempt_fails env_no_port cfg0 (main_run env_no_port cfg0 2)"
    "open_attempt_fails env_no_port cfg0 (main_run env_no_port cfg0 3)"
    "open_attempt_fails env_no_port cfg0 (main_run env_no_port cfg0 4)"
    by code_simp+
  have k: "k = 0 \<or> k = 1 \<or> k = 2 \<or> k = 3 \<or> k = 4" if "k < 5" for k :: nat
    using that by arith
  have all: "\<forall>k<5. open_attempt_fails env_no_port cfg0 (main_run env_no_port cfg0 (0 + k))"
  proof (intro allI impI)
    fix k :: nat
    assume "k < 5"
    then have "k = 0 \<or> k = 1 \<or> k = 2 \<or> k = 3 \<or> k = 4"
      by (rule k)
    then show "open_attempt_fails env_no_port cfg0 (main_run env_no_port cfg0 (0 + k))"
      unfolding add_0 using f by blast
  qed
  have s: "open_attempt_succeeds (env_ok []) cfg0 (main_run (env_ok []) cfg0 0)"
    by code_simp
  show ?thesis
    using retry_budget [where env = env_no_port and cfg = cfg0 and n = 0]
      retry_budget [where env = "env_ok []" and cfg = cfg0
        and s = "main_run (env_ok []) cfg0 0"]
      all s f
    by simp
qed

text \<open>
  C6, as the code has it.  From one program point of main to the next,
  reconnect_needed goes from set to clear only in the step from the head of
  the outer loop in which open_serial_port succeeds (line 353); that step
  ends before the call of init_minitel_screen, so the flag is cleared when the
  new handle is open and not yet initialised, whether or not the
  initialisation then succeeds.
\<close>

theorem reconnect_needed_cleared_by_open:
  "reconnect_needed (world s) \<noteq> 0 \<and> reconnect_needed (world (main_step env cfg s)) = 0 \<longrightarrow>
     pc s = OuterHead \<and> open_attempt_succeeds env cfg s \<and>
     pc (main_step env cfg s) = Init"
proof (intro impI, elim conjE)
  assume set: "reconnect_needed (world s) \<noteq> 0"
    and clear: "reconnect_needed (world (main_step env cfg s)) = 0"
  have d: "reconnect_needed (deliver env (world s)) \<noteq> 0"
    using deliver_flags [of "world s" env] set by (simp add: flags_kept_def)
  show "pc s = OuterHead \<and> open_attempt_succeeds env cfg s \<and> pc (main_step env cfg s) = Init"
  proof (cases "pc s")
    case OuterHead
    consider "keep_running (deliver env (world s)) = 0" | "open_attempt_fails env cfg s"
      | "open_attempt_succeeds env cfg s"
      using outer_step_cases by blast
    then show ?thesis
    proof cases
      case 1
      with clear d OuterHead show ?thesis
        by (simp add: main_step_def outer_step_stopped)
    next
      case 2
      with clear d OuterHead outer_step_fails [OF 2] show ?thesis
        by (simp add: main_step_def)
    next
      case 3
      with OuterHead outer_step_succeeds [OF 3] show ?thesis
        by (simp add: main_step_def)
    qed
  next
    case Init
    with set clear init_step_fields [of env cfg s] show ?thesis
      by (simp add: main_step_def)
  next
    case InnerHead
    with clear inner_step_reconnect [OF set, of env cfg] show ?thesis
      by (simp add: main_step_def)
  next
    case (Exited c)
    with set clear show ?thesis
      by (simp add: main_step_def)
  qed
qed

theorem reconnect_needed_cleared_by_open_witness:
  "reconnect_needed (world (main_run env_sighup_init_fails cfg0 1)) \<noteq> 0 \<and>
   reconnect_needed (world (main_step env_sighup_init_fails cfg0
                              (main_run env_sighup_init_fails cfg0 1))) = 0 \<and>
   pc (main_run env_sighup_init_fails cfg0 1) = OuterHead \<and>
   open_attempt_succeeds env_sighup_init_fails cfg0 (main_run env_sighup_init_fails cfg0 1) \<and>
   pc (main_step env_sighup_init_fails cfg0 (main_run env_sighup_init_fails cfg0 1)) = Init"
proof -
  have "reconnect_needed (world (main_run env_sighup_init_fails cfg0 1)) \<noteq> 0"
    "reconnect_needed (world (main_step env_sighup_init_fails cfg0
                              (main_run env_sighup_init_fails cfg0 1))) = 0"
    by code_simp+
  then show ?thesis
    using reconnect_needed_cleared_by_open
      [of "main_run env_sighup_init_fails cfg0 1" env_sighup_init_fails cfg0]
    by simp
qed

text \<open>
  C6 as stated fails.  SIGHUP sets the flag and a first open fails; the
  second open succeeds and the flag is cleared, with main at the call of
  init_minitel_screen; the initialisation then fails on its first write.  The
  flag is clear at the head of the outer loop although no initialisation was
  ever completed.
\<close>

theorem reconnect_needed_cleared_before_init:
  "reconnect_needed (world (main_run env_sighup_init_fails cfg0 1)) = 1 \<and>
   reconnect_needed (world (main_run env_sighup_init_fails cfg0 2)) = 0 \<and>
   pc (main_run env_sighup_init_fails cfg0 2) = Init \<and>
   fst (init_minitel_screen env_sighup_init_fails
          (fd_global (world (main_run env_sighup_init_fails cfg0 2)))
          (world (main_run env_sighup_init_fails cfg0 2))) = - 1 \<and>
   pc (main_run env_sighup_init_fails cfg0 3) = OuterHead \<and>
   reconnect_needed (world (main_run env_sighup_init_fails cfg0 3)) = 0 \<and>
   Log INFO ScreenInitialised \<notin> set (trace (world (main_run env_sighup_init_fails cfg0 3)))"
  by code_simp

subsection \<open>After a stop\<close>

lemma leave_stream_stopped:
  assumes "keep_running w = 0"
  shows "keep_running (world (leave_stream env s w)) = 0 \<and>
         trace (world (leave_stream env s w)) =
           trace w @ new_events w (world (leave_stream env s w)) \<and>
         writes (new_events w (world (leave_stream env s w))) = []"
proof -
  let ?w1 = "if fd_global w \<ge> 0
             then log_message INFO PortClosed
                    ((snd (sys_close (fd_global w) w))\<lparr>fd_global := - 1\<rparr>)
             else w"
  have k1: "keep_running ?w1 = 0"
    using assms by simp
  have "\<exists>evs. trace ?w1 = trace w @ evs \<and> writes evs = []"
    by simp
  then obtain evs where t1: "trace ?w1 = trace w @ evs" and e1: "writes evs = []"
    by blast
  have k2: "keep_running (deliver env ?w1) = 0"
    using k1 by simp
  have eq: "world (leave_stream env s w) = deliver env ?w1"
    using k2 by (simp add: leave_stream_def Let_def)
  have t: "trace (deliver env ?w1) = trace w @ (evs @ new_events ?w1 (deliver env ?w1))"
    using deliver_trace [of env ?w1] t1 by simp
  then have n: "new_events w (deliver env ?w1) = evs @ new_events ?w1 (deliver env ?w1)"
    by (rule new_events_append)
  have "trace (deliver env ?w1) = trace w @ new_events w (deliver env ?w1)"
    using t n by simp
  then show ?thesis
    using k2 e1 n by (simp add: eq)
qed

lemma stopped_outer_step:
  assumes "keep_running (world s) = 0" "pc s = OuterHead"
  shows "pc (main_step env cfg s) = Exited 0 \<and>
         trace (world (main_step env cfg s)) =
           trace (world s) @ new_events (world s) (world (main_step env cfg s)) \<and>
         writes (new_events (world s) (world (main_step env cfg s))) = []"
proof -
  have k: "keep_running (deliver env (world s)) = 0"
    using assms(1) by simp
  have t: "trace (log_message INFO Shutdown (deliver env (world s))) =
      trace (world s) @ (new_events (world s) (deliver env (world s)) @ [Log INFO Shutdown])"
    using deliver_trace [of env "world s"] by simp
  then have n: "new_events (world s) (log_message INFO Shutdown (deliver env (world s))) =
      new_events (world s) (deliver env (world s)) @ [Log INFO Shutdown]"
    by (rule new_events_append)
  have "trace (log_message INFO Shutdown (deliver env (world s))) =
      trace (world s) @ new_events (world s) (log_message INFO Shutdown (deliver env (world s)))"
    using t n by simp
  then show ?thesis
    using assms(2) k n by (simp add: main_step_def outer_step_stopped)
qed

lemma stopped_inner_step:
  assumes "keep_running (world s) = 0" "pc s = InnerHead"
  shows "pc (main_step env cfg s) = OuterHead \<and>
         keep_running (world (main_step env cfg s)) = 0 \<and>
         trace (world (main_step env cfg s)) =
           trace (world s) @ new_events (world s) (world (main_step env cfg s)) \<and>
         writes (new_events (world s) (world (main_step env cfg s))) = []"
proof -
  let ?w1 = "deliver env (world s)"
  have k: "keep_running ?w1 = 0"
    using assms(1) by simp
  have eq: "main_step env cfg s = leave_stream env s ?w1"
    using assms(2) k by (simp add: main_step_def inner_step_def)
  let ?w2 = "world (leave_stream env s ?w1)"
  have l: "keep_running ?w2 = 0" "writes (new_events ?w1 ?w2) = []"
    and t2: "trace ?w2 = trace ?w1 @ new_events ?w1 ?w2"
    using leave_stream_stopped [OF k, of env s] by simp_all
  have t: "trace ?w2 = trace (world s) @ (new_events (world s) ?w1 @ new_events ?w1 ?w2)"
    using deliver_trace [of env "world s"] t2 by simp
  then have "new_events (world s) ?w2 = new_events (world s) ?w1 @ new_events ?w1 ?w2"
    by (rule new_events_append)
  then show ?thesis
    using l t leave_stream_fields [of env s ?w1] by (simp add: eq)
qed

lemma stopped_exits:
  assumes "keep_running (world s) = 0" "pc s = OuterHead \<or> pc s = InnerHead"
  shows "pc (main_step env cfg (main_step env cfg s)) = Exited 0 \<and>
         trace (world (main_step env cfg (main_step env cfg s))) =
           trace (world s) @
           new_events (world s) (world (main_step env cfg (main_step env cfg s))) \<and>
         writes (new_events (world s) (world (main_step env cfg (main_step env cfg s)))) = []"
proof (cases "pc s = OuterHead")
  case True
  note a = stopped_outer_step [OF assms(1) True, of env cfg]
  have "main_step env cfg (main_step env cfg s) = main_step env cfg s"
    using a by (simp add: main_step_def [of env cfg "main_step env cfg s"])
  with a show ?thesis by simp
next
  case False
  with assms(2) have inner: "pc s = InnerHead" by simp
  let ?s1 = "main_step env cfg s"
  let ?s2 = "main_step env cfg ?s1"
  note a = stopped_inner_step [OF assms(1) inner, of env cfg]
  have b: "pc ?s2 = Exited 0"
    "trace (world ?s2) = trace (world ?s1) @ new_events (world ?s1) (world ?s2)"
    "writes (new_events (world ?s1) (world ?s2)) = []"
    using stopped_outer_step [of ?s1 env cfg] a by simp_all
  have t: "trace (world ?s2) =
      trace (world s) @ (new_events (world s) (world ?s1) @ new_events (world ?s1) (world ?s2))"
    using a b(2) by simp
  then have n: "new_events (world s) (world ?s2) =
      new_events (world s) (world ?s1) @ new_events (world ?s1) (world ?s2)"
    by (rule new_events_append)
  have "trace (world ?s2) = trace (world s) @ new_events (world s) (world ?s2)"
    using t n by simp
  then show ?thesis
    using a b n by simp
qed

text \<open>Once send_file_to_minitel has returned with the flag at 0, whatever it returned.\<close>

lemma after_send_stopped:
  assumes "keep_running w = 0"
  shows "keep_running (world (after_send env cfg s r w)) = 0 \<and>
         (pc (after_send env cfg s r w) = OuterHead \<or>
          pc (after_send env cfg s r w) = InnerHead) \<and>
         trace (world (after_send env cfg s r w)) =
           trace w @ new_events w (world (after_send env cfg s r w)) \<and>
         writes (new_events w (world (after_send env cfg s r w))) = []"
proof -
  have leave: "keep_running (world (leave_stream env s v)) = 0 \<and>
         trace (world (leave_stream env s v)) =
           trace w @ new_events w (world (leave_stream env s v)) \<and>
         writes (new_events w (world (leave_stream env s v))) = []"
    if v: "keep_running v = 0" "trace v = trace w @ [Log l m]" for v l m
  proof -
    note a = leave_stream_stopped [OF v(1), of env s]
    have t: "trace (world (leave_stream env s v)) =
        trace w @ ([Log l m] @ new_events v (world (leave_stream env s v)))"
      using a v(2) by simp
    then have n: "new_events w (world (leave_stream env s v)) =
        [Log l m] @ new_events v (world (leave_stream env s v))"
      by (rule new_events_append)
    have "trace (world (leave_stream env s v)) =
        trace w @ new_events w (world (leave_stream env s v))"
      using t n by simp
    then show ?thesis
      using a n by simp
  qed
  have sleep: "new_events w (sys_sleep 1 w) = [Sleep 1]"
    by (simp add: new_events_append)
  show ?thesis
    using leave [of "(log_message ERROR SendError w)\<lparr>reconnect_needed := 1\<rparr>" ERROR SendError]
      leave [of "(log_message INFO OneShotStop w)\<lparr>keep_running := 0\<rparr>" INFO OneShotStop]
      leave_stream_fields [of env s] assms sleep
    by (simp add: after_send_def)
qed

lemma stopped_send_exits:
  assumes "keep_running w = 0"
  shows "pc (main_step env cfg (main_step env cfg (after_send env cfg s r w))) = Exited 0 \<and>
         writes (new_events w
           (world (main_step env cfg (main_step env cfg (after_send env cfg s r w))))) = []"
proof -
  let ?s1 = "after_send env cfg s r w"
  let ?s3 = "main_step env cfg (main_step env cfg ?s1)"
  note a = after_send_stopped [OF assms, of env cfg s r]
  have b: "pc ?s3 = Exited 0"
    "trace (world ?s3) = trace (world ?s1) @ new_events (world ?s1) (world ?s3)"
    "writes (new_events (world ?s1) (world ?s3)) = []"
    using stopped_exits [of ?s1 env cfg] a by simp_all
  have "trace (world ?s3) =
      trace w @ (new_events w (world ?s1) @ new_events (world ?s1) (world ?s3))"
    using a b(2) by simp
  then have "new_events w (world ?s3) =
      new_events w (world ?s1) @ new_events (world ?s1) (world ?s3)"
    by (rule new_events_append)
  then show ?thesis
    using a b by simp
qed

lemma send_stream_stopped:
  assumes "keep_running (deliver env w) = 0"
  shows "send_loop env fd d src count n w = (Some (count, n, src), deliver env w)"
    and "writes (new_events w (snd (send_stream env fd d src count n w))) =
           [Write fd [13] (fst (sys_write env fd [13] (sys_fclose (deliver env w))))]"
    and "fst (send_stream env fd d src count n w) =
           (if fst (sys_write env fd [13] (sys_fclose (deliver env w))) < 0 then - 1 else 0)"
    and "keep_running (snd (send_stream env fd d src count n w)) = 0"
proof -
  show run: "send_loop env fd d src count n w = (Some (count, n, src), deliver env w)"
    using assms by (cases src) (simp_all add: send_loop_Nil send_loop_Cons)
  let ?w1 = "sys_fclose (deliver env w)"
  have k: "keep_running ?w1 = 0"
    using assms by simp
  note fin = send_finish_stopped [OF k, of env fd n]
  show "writes (new_events w (snd (send_stream env fd d src count n w))) =
           [Write fd [13] (fst (sys_write env fd [13] ?w1))]"
    using send_stream_Some(2) [OF run] fin by simp
  show "fst (send_stream env fd d src count n w) =
           (if fst (sys_write env fd [13] ?w1) < 0 then - 1 else 0)"
    using send_stream_Some(1) [OF run] fin by simp
  show "keep_running (snd (send_stream env fd d src count n w)) = 0"
    using send_stream_Some(1) [OF run] send_finish_fields [of env fd n ?w1] k by simp
qed

text \<open>
  What the code does when keep_running is found 0 at a head of the while loop
  (\<open>src\<close>, \<open>count\<close> and \<open>n\<close> are the unread source and the two counters
  there).  The loop ends at that point: nothing more is read from the source,
  nothing is written, and there is no error.  What follows in the call is the
  fclose and one write to the serial handle, the CR of line 266; no line feed
  follows, since the for loop tests the flag first.  The call returns 0 when
  that write succeeds and -1 when it fails, and the flag stays 0.  Once the
  call has returned with the flag at 0, whatever it returned, main leaves both
  loops and returns with exit status 0, and nothing more is written to the
  serial handle.
\<close>

lemma stop_flag_ends_send:
  "(keep_running (deliver env w) = 0 \<longrightarrow>
      send_loop env fd d src count n w = (Some (count, n, src), deliver env w) \<and>
      writes (new_events w (snd (send_stream env fd d src count n w))) =
        [Write fd [13] (fst (sys_write env fd [13] (sys_fclose (deliver env w))))] \<and>
      fst (send_stream env fd d src count n w) =
        (if fst (sys_write env fd [13] (sys_fclose (deliver env w))) < 0 then - 1 else 0) \<and>
      keep_running (snd (send_stream env fd d src count n w)) = 0) \<and>
   (keep_running v = 0 \<longrightarrow>
      pc (main_step env cfg (main_step env cfg (after_send env cfg s r v))) = Exited 0 \<and>
      writes (new_events v
                (world (main_step env cfg (main_step env cfg (after_send env cfg s r v))))) = [])"
  using send_stream_stopped [of env w fd d src count n]
    stopped_send_exits [of v env cfg s r]
  by blast

lemma stop_flag_ends_send_example:
  "keep_running (deliver (env_sigint_at 0 []) world3) = 0 \<and>
   send_loop (env_sigint_at 0 []) 3 0 [66] 1 1 world3 =
     (Some (1, 1, [66]), deliver (env_sigint_at 0 []) world3) \<and>
   writes (new_events world3 (snd (send_stream (env_sigint_at 0 []) 3 0 [66] 1 1 world3))) =
     [Write 3 [13] 1] \<and>
   fst (send_stream (env_sigint_at 0 []) 3 0 [66] 1 1 world3) = 0 \<and>
   keep_running (snd (send_stream (env_sigint_at 0 []) 3 0 [66] 1 1 world3)) = 0 \<and>
   pc (main_step (env_sigint_at 0 []) cfg0 (main_step (env_sigint_at 0 []) cfg0
        (after_send (env_sigint_at 0 []) cfg0 (main_run (env_ok []) cfg0 2) 0
           (snd (send_stream (env_sigint_at 0 []) 3 0 [66] 1 1 world3))))) = Exited 0"
proof -
  have a: "keep_running (deliver (env_sigint_at 0 []) world3) = 0"
    by code_simp
  have b: "fst (sys_write (env_sigint_at 0 []) 3 [13]
                  (sys_fclose (deliver (env_sigint_at 0 []) world3))) = 1"
    by code_simp
  note c = stop_flag_ends_send
      [where env = "env_sigint_at 0 []" and w = world3 and fd = 3 and d = 0
         and src = "[66]" and count = 1 and n = 1 and cfg = cfg0
         and s = "main_run (env_ok []) cfg0 2" and r = 0
         and v = "snd (send_stream (env_sigint_at 0 []) 3 0 [66] 1 1 world3)"]
  show ?thesis
    using c a b by simp
qed

text \<open>
  C2 fails on the code in one point: after the stop the call still writes to
  the serial handle.  The source holds the bytes 65 and 66 and SIGINT arrives
  after the first was forwarded.  The loop ends at its next head with the flag
  at 0 and the byte 66 unread, without error; the call then closes the source
  and writes the CR of line 266 to the serial handle before it returns 0.  The
  for loop of line 272 tests keep_running before each of its writes, the write
  of line 266 is not guarded.  The last two parts are the same run seen from
  main, from the first turn of the inner loop to the return with status 0.
\<close>

theorem write_after_stop_flag:
  "fst (send_loop (env_sigint_at 1 []) 3 0 [65, 66] 0 0 world3) = Some (1, 1, [66]) \<and>
   keep_running (snd (send_loop (env_sigint_at 1 []) 3 0 [65, 66] 0 0 world3)) = 0 \<and>
   new_events world3 (snd (send_stream (env_sigint_at 1 []) 3 0 [65, 66] 0 0 world3)) =
     [Getfl 3 2, Setfl 3 2050, Write 3 [] 0, Setfl 3 2, Write 3 [65] 1, Usleep 0,
      Log INFO (SignalStop 2), Fclose, Write 3 [13] 1, Log INFO (FileSent 1)] \<and>
   writes (new_events (snd (send_loop (env_sigint_at 1 []) 3 0 [65, 66] 0 0 world3))
             (snd (send_stream (env_sigint_at 1 []) 3 0 [65, 66] 0 0 world3))) =
     [Write 3 [13] 1] \<and>
   fst (send_stream (env_sigint_at 1 []) 3 0 [65, 66] 0 0 world3) = 0 \<and>
   new_events (world (main_run (env_sigint_at 4 [65, 66]) cfg0 2))
              (world (main_run (env_sigint_at 4 [65, 66]) cfg0 5)) =
     [Getfl 3 2, Setfl 3 2050, Write 3 [] 0, Setfl 3 2, Fopen ''text.txt'' True,
      Getfl 3 2, Setfl 3 2050, Write 3 [] 0, Setfl 3 2, Write 3 [65] 1, Usleep 0,
      Log INFO (SignalStop 2), Fclose, Write 3 [13] 1, Log INFO (FileSent 1), Sleep 1,
      Close 3, Log INFO PortClosed, Log INFO Shutdown] \<and>
   pc (main_run (env_sigint_at 4 [65, 66]) cfg0 5) = Exited 0"
  by code_simp

end
